theory Spec2Isabelle
  imports Main "HOL-Library.Word" "HOL-Library.Sublist"
begin

section \<open>Rotated log files: file names, segment creation and entry fetching\<close>

text \<open>
  A shallow embedding of \<^verbatim>\<open>util/log/file.go\<close>.  Go strings are byte strings
  (\<^typ>\<open>string\<close>), \<^verbatim>\<open>int64\<close> is \<^typ>\<open>64 word\<close> read with \<^const>\<open>sint\<close>, and a
  Go result pair \<^verbatim>\<open>(v, err)\<close> is a sum with the error on the left, or a pair with an
  optional error where the code can return a value together with an error.  Calls that
  leave the file (the operating system, the \<^verbatim>\<open>time\<close> package, \<^verbatim>\<open>path.Join\<close>) are
  fields of an environment record.
\<close>

type_synonym int64 = "64 word"

datatype error =
  NotALogFile            \<comment> \<open>\<^verbatim>\<open>not a log file\<close>\<close>
  | LevelNotParsed       \<comment> \<open>\<^verbatim>\<open>not a log file, couldn't parse level\<close>\<close>
  | NotARegularFile      \<comment> \<open>\<^verbatim>\<open>not a regular file\<close>\<close>
  | NoLogDirs            \<comment> \<open>\<^verbatim>\<open>log: no log dirs\<close>\<close>
  | CannotCreateLog "error option"  \<comment> \<open>\<^verbatim>\<open>log: cannot create log: %v\<close>\<close>
  | AbsoluteForbidden    \<comment> \<open>\<^verbatim>\<open>absolute pathnames are forbidden\<close>\<close>
  | BasenamesOnly        \<comment> \<open>\<^verbatim>\<open>pathnames must be basenames only\<close>\<close>
  | NotACockroachLog     \<comment> \<open>\<^verbatim>\<open>filename is not a cockroach log file\<close>\<close>
  | ErrSyntax            \<comment> \<open>\<^verbatim>\<open>strconv.ErrSyntax\<close>\<close>
  | ErrRange             \<comment> \<open>\<^verbatim>\<open>strconv.ErrRange\<close>\<close>
  | LibError string      \<comment> \<open>an error of the operating system, the time parser or the entry decoder\<close>

subsection \<open>String replacement and identity escaping\<close>

text \<open>
  \<^verbatim>\<open>strings.Replace(s, old, new, -1)\<close> for a non-empty \<open>old\<close>: the non-overlapping
  occurrences of \<open>old\<close> are replaced from left to right.  Every call in the file has a
  non-empty literal for \<open>old\<close>; the model leaves the empty case unspecified.
\<close>

fun Replace :: "string \<Rightarrow> string \<Rightarrow> string \<Rightarrow> string" where
  "Replace [] (c # old) new = []"
| "Replace (x # xs) (c # old) new =
     (if prefix (c # old) (x # xs)
      then new @ Replace (drop (Suc (length old)) (x # xs)) (c # old) new
      else x # Replace xs (c # old) new)"

definition escapeStringForFilename :: "string \<Rightarrow> string" where
  "escapeStringForFilename s =
     (let sEscapedPartial = Replace s ''_'' ''__''
      in Replace sEscapedPartial ''.'' ''_'')"

definition unescapeStringForFilename :: "string \<Rightarrow> string" where
  "unescapeStringForFilename s =
     (let sUnescapedPartial = Replace s ''_'' ''.''
      in Replace sUnescapedPartial ''__'' ''_'')"

subsection \<open>Severity levels\<close>

text \<open>
  Modelled from the spec: the type \<^verbatim>\<open>Level\<close>, \<^verbatim>\<open>Level.String\<close> and
  \<^verbatim>\<open>LevelFromString\<close> are declared in another file of the package.  The spec gives the
  ordered enumeration INFO, WARNING, ERROR, FATAL with a bidirectional, case-sensitive
  name mapping; the doc comment of \<^verbatim>\<open>create\<close> names INFO and FATAL as levels.
\<close>

datatype Level = INFO | WARNING | ERROR | FATAL

fun Level_String :: "Level \<Rightarrow> string" where
  "Level_String INFO = ''INFO''"
| "Level_String WARNING = ''WARNING''"
| "Level_String ERROR = ''ERROR''"
| "Level_String FATAL = ''FATAL''"

text \<open>Modelled from the spec: the pair of a level and whether the name was found.\<close>

definition LevelFromString :: "string \<Rightarrow> Level \<times> bool" where
  "LevelFromString s =
     (if s = ''INFO'' then (INFO, True)
      else if s = ''WARNING'' then (WARNING, True)
      else if s = ''ERROR'' then (ERROR, True)
      else if s = ''FATAL'' then (FATAL, True)
      else (INFO, False))"

subsection \<open>Data\<close>

record 't FileDetails =
  Program :: string
  Host :: string
  UserName :: string
  Level :: Level
  Time :: 't
  PID :: int64

record 't FileInfo =
  Name :: string
  SizeBytes :: int64
  ModTimeNanos :: int64
  Details :: "'t FileDetails"

text \<open>
  What \<^verbatim>\<open>os.FileInfo\<close> gives the file: the name, whether
  \<^verbatim>\<open>Mode()&os.ModeType\<close> is zero, the size and the modification time in nanoseconds.
\<close>

record os_FileInfo =
  fi_Name :: string
  fi_IsRegular :: bool
  fi_Size :: int64
  fi_ModTime :: int64

text \<open>
  Modelled from the spec: \<^verbatim>\<open>proto.LogEntry\<close> and the entry decoder are declared
  elsewhere.  An entry has a timestamp in nanoseconds; the decoder yields, from an open
  stream, a finite sequence of entries and then either end-of-data (\<^verbatim>\<open>io.EOF\<close>,
  \<open>failure = None\<close>) or a corruption error.
\<close>

record LogEntry =
  entry_Time :: int64
  entry_Message :: string

record stream =
  decoded :: "LogEntry list"
  failure :: "error option"

text \<open>
  The environment of the package: the process identity and configuration variables, and
  the library calls the code makes.  \<open>'t\<close> is \<^verbatim>\<open>time.Time\<close>.
\<close>

record 't env =
  program :: string
  host :: string
  userName :: string
  pid :: int64
  logDir :: string
  logDirs :: "string list"
  EntiresCutoff :: int
  Format :: "'t \<Rightarrow> string"             \<comment> \<open>\<^verbatim>\<open>t.Format(time.RFC3339)\<close>\<close>
  Parse :: "string \<Rightarrow> error + 't"       \<comment> \<open>\<^verbatim>\<open>time.Parse(time.RFC3339, s)\<close>\<close>
  UnixNano :: "'t \<Rightarrow> int64"             \<comment> \<open>\<^verbatim>\<open>t.UnixNano()\<close>\<close>
  Join :: "string \<Rightarrow> string \<Rightarrow> string"  \<comment> \<open>\<^verbatim>\<open>path.Join\<close>, \<^verbatim>\<open>filepath.Join\<close>\<close>
  ReadDir :: "string \<Rightarrow> error + os_FileInfo list"  \<comment> \<open>\<^verbatim>\<open>ioutil.ReadDir\<close>\<close>
  Stat :: "string \<Rightarrow> error + os_FileInfo"          \<comment> \<open>\<^verbatim>\<open>os.Stat\<close>\<close>
  Open :: "string \<Rightarrow> error + stream"               \<comment> \<open>\<^verbatim>\<open>os.Open\<close>\<close>
  OpenFile :: "string \<Rightarrow> error option"
    \<comment> \<open>\<^verbatim>\<open>os.OpenFile(fname, O_APPEND|O_CREATE|O_WRONLY, 0664)\<close>: the error, if any\<close>
  ZeroTime :: 't                        \<comment> \<open>the zero value \<^verbatim>\<open>time.Time{}\<close>\<close>

subsection \<open>Decimal integers\<close>

definition isDigit :: "char \<Rightarrow> bool" where
  "isDigit c = (48 \<le> (of_char c :: nat) \<and> (of_char c :: nat) \<le> 57)"

definition digitVal :: "char \<Rightarrow> nat" where
  "digitVal c = of_char c - 48"

definition digitChar :: "nat \<Rightarrow> char" where
  "digitChar d = ''0123456789'' ! d"

text \<open>The verb \<^verbatim>\<open>%d\<close> of \<^verbatim>\<open>fmt.Sprintf\<close>.\<close>

function decimal :: "nat \<Rightarrow> string" where
  "decimal n = (if n < 10 then [digitChar n] else decimal (n div 10) @ [digitChar (n mod 10)])"
  by pat_completeness auto
termination
  by (relation "measure id") auto

declare decimal.simps [simp del]

definition FormatInt :: "int \<Rightarrow> string" where
  "FormatInt i = (if i < 0 then CHR ''-'' # decimal (nat (- i)) else decimal (nat i))"

text \<open>
  \<^verbatim>\<open>strconv.ParseUint(s, 10, 64)\<close> after its check for the empty string: digit by
  digit, a syntax error at the first character that is no digit, a range error as soon
  as the value leaves 64 bits.
\<close>

fun parseDigits :: "nat \<Rightarrow> string \<Rightarrow> error + nat" where
  "parseDigits n [] = Inr n"
| "parseDigits n (d # ds) =
     (if \<not> isDigit d then Inl ErrSyntax
      else if 2 ^ 64 \<le> 10 * n + digitVal d then Inl ErrRange
      else parseDigits (10 * n + digitVal d) ds)"

definition ParseUint :: "string \<Rightarrow> error + nat" where
  "ParseUint s = (if s = [] then Inl ErrSyntax else parseDigits 0 s)"

text \<open>\<^verbatim>\<open>strconv.ParseInt(s, 10, 0)\<close>: an optional sign, then the digits, within 64 bits.\<close>

definition ParseInt :: "string \<Rightarrow> error + int64" where
  "ParseInt s =
     (case s of
        [] \<Rightarrow> Inl ErrSyntax
      | c # cs \<Rightarrow>
          (let neg = (c = CHR ''-'');
               body = (if c = CHR ''+'' \<or> c = CHR ''-'' then cs else s)
           in case ParseUint body of
                Inl e \<Rightarrow> Inl e
              | Inr un \<Rightarrow>
                  if \<not> neg \<and> 2 ^ 63 \<le> un then Inl ErrRange
                  else if neg \<and> 2 ^ 63 < un then Inl ErrRange
                  else Inr (if neg then - word_of_nat un else word_of_nat un)))"

subsection \<open>The file name pattern\<close>

text \<open>
  \<^verbatim>\<open>logFileRE\<close> is
  \<^verbatim>\<open>([^\.]+)\.([^\.]+)\.([^\.]+)\.log\.(ERROR|WARNING|INFO)\.([^\.]+)\.(\d+)\<close>,
  with no anchor at either end.  Matching it at a given position is deterministic: a
  group \<^verbatim>\<open>[^\.]+\<close> followed by a period can only take the whole run of characters up to
  the next period, no severity name is a prefix of another, and the final greedy
  \<^verbatim>\<open>\d+\<close> takes every digit that follows.
\<close>

definition notDot :: "char \<Rightarrow> bool" where
  "notDot c = (c \<noteq> CHR ''.'')"

text \<open>\<^verbatim>\<open>([^\.]+)\.\<close>: the group and the rest of the input after the period.\<close>

definition fieldDot :: "string \<Rightarrow> (string \<times> string) option" where
  "fieldDot s =
     (let g = takeWhile notDot s
      in if g = [] then None
         else case dropWhile notDot s of [] \<Rightarrow> None | d # r \<Rightarrow> Some (g, r))"

definition literal :: "string \<Rightarrow> string \<Rightarrow> string option" where
  "literal l s = (if prefix l s then Some (drop (length l) s) else None)"

text \<open>\<^verbatim>\<open>(ERROR|WARNING|INFO)\<close>: the alternatives in their order.\<close>

definition severityGroup :: "string \<Rightarrow> (string \<times> string) option" where
  "severityGroup s =
     (if prefix ''ERROR'' s then Some (''ERROR'', drop 5 s)
      else if prefix ''WARNING'' s then Some (''WARNING'', drop 7 s)
      else if prefix ''INFO'' s then Some (''INFO'', drop 4 s)
      else None)"

text \<open>A match that starts at the head of the input: the whole match and the six groups.\<close>

definition matchHere :: "string \<Rightarrow> string list option" where
  "matchHere s =
     (case fieldDot s of None \<Rightarrow> None | Some (g1, r1) \<Rightarrow>
      case fieldDot r1 of None \<Rightarrow> None | Some (g2, r2) \<Rightarrow>
      case fieldDot r2 of None \<Rightarrow> None | Some (g3, r3) \<Rightarrow>
      case literal ''log.'' r3 of None \<Rightarrow> None | Some r4 \<Rightarrow>
      case severityGroup r4 of None \<Rightarrow> None | Some (g4, r5) \<Rightarrow>
      case literal ''.'' r5 of None \<Rightarrow> None | Some r6 \<Rightarrow>
      case fieldDot r6 of None \<Rightarrow> None | Some (g5, r7) \<Rightarrow>
      (let g6 = takeWhile isDigit r7
       in if g6 = [] then None
          else Some [g1 @ ''.'' @ g2 @ ''.'' @ g3 @ ''.log.'' @ g4 @ ''.'' @ g5 @ ''.'' @ g6,
                     g1, g2, g3, g4, g5, g6]))"

text \<open>\<^verbatim>\<open>logFileRE.FindStringSubmatch\<close>: the leftmost match, \<open>None\<close> for \<^verbatim>\<open>nil\<close>.\<close>

fun FindStringSubmatch :: "string \<Rightarrow> string list option" where
  "FindStringSubmatch [] = matchHere []"
| "FindStringSubmatch (c # cs) =
     (case matchHere (c # cs) of
        Some m \<Rightarrow> Some m
      | None \<Rightarrow> FindStringSubmatch cs)"

definition MatchString :: "string \<Rightarrow> bool" where
  "MatchString s = (FindStringSubmatch s \<noteq> None)"

subsection \<open>Encoding and decoding file names\<close>

definition logName :: "'t env \<Rightarrow> Level \<Rightarrow> 't \<Rightarrow> string \<times> string" where
  "logName env level t =
     (let tFormatted = Replace (Format env t) '':'' ''_'';
          name = escapeStringForFilename (program env) @ ''.''
                 @ escapeStringForFilename (host env) @ ''.''
                 @ escapeStringForFilename (userName env) @ ''.log.''
                 @ Level_String level @ ''.''
                 @ tFormatted @ ''.''
                 @ FormatInt (sint (pid env))
      in (name, program env @ ''.'' @ Level_String level))"

definition parseLogFilename :: "'t env \<Rightarrow> string \<Rightarrow> error + 't FileDetails" where
  "parseLogFilename env filename =
     (case FindStringSubmatch filename of
        None \<Rightarrow> Inl NotALogFile
      | Some matches \<Rightarrow>
          if length matches \<noteq> 7 then Inl NotALogFile
          else
            (case LevelFromString (matches ! 4) of
               (level, levelFound) \<Rightarrow>
                 if \<not> levelFound then Inl LevelNotParsed
                 else
                   (let fixTime = Replace (matches ! 5) ''_'' '':''
                    in case Parse env fixTime of
                         Inl err \<Rightarrow> Inl err
                       | Inr time \<Rightarrow>
                           (case ParseInt (matches ! 6) of
                              Inl err \<Rightarrow> Inl err
                            | Inr pid' \<Rightarrow>
                                Inr \<lparr> Program = unescapeStringForFilename (matches ! 1),
                                      Host = unescapeStringForFilename (matches ! 2),
                                      UserName = unescapeStringForFilename (matches ! 3),
                                      Level = level,
                                      Time = time,
                                      PID = pid' \<rparr>))))"

subsection \<open>Creating a segment\<close>

text \<open>
  \<^verbatim>\<open>createLogDirs\<close> appends the directory of the flag \<^verbatim>\<open>logDir\<close>, the string
  \<^verbatim>\<open>*logDir\<close>, when it is not empty.  \<^verbatim>\<open>onceLogDirs.Do(createLogDirs)\<close> runs it
  on the first call of \<^verbatim>\<open>create\<close> only; the argument \<open>once\<close> of \<^verbatim>\<open>create\<close> says
  whether \<^verbatim>\<open>onceLogDirs\<close> has run already.
\<close>

definition createLogDirs :: "'t env \<Rightarrow> 't env" where
  "createLogDirs env =
     (if logDir env \<noteq> [] then env\<lparr>logDirs := logDirs env @ [logDir env]\<rparr> else env)"

text \<open>
  One pass through the body of the loop of \<^verbatim>\<open>create\<close>, for the directory
  \<open>dir\<close>: the body either returns from \<^verbatim>\<open>create\<close> or falls through to
  \<^verbatim>\<open>lastErr = err\<close> and the next directory.  Removing and recreating the symlink
  has no effect on the result (its errors are ignored) and is left out.
\<close>

datatype createStep = Returns "error + string" | Continues "error option"

definition createBody :: "'t env \<Rightarrow> string \<Rightarrow> string \<Rightarrow> string \<times> createStep" where
  "createBody env name dir =
     (let fname = Join env dir name;
          err = OpenFile env fname
      in if err \<noteq> None then (fname, Returns (Inl (CannotCreateLog err)))
         else if err = None then (fname, Returns (Inr fname))
         else (fname, Continues err))"

text \<open>
  The loop over the candidate directories.  The result carries the paths handed to
  \<^verbatim>\<open>os.OpenFile\<close>, in order.
\<close>

fun createLoop ::
  "'t env \<Rightarrow> string \<Rightarrow> string list \<Rightarrow> error option \<Rightarrow> string list
     \<Rightarrow> string list \<times> (error + string)" where
  "createLoop env name [] lastErr tried = (tried, Inl (CannotCreateLog lastErr))"
| "createLoop env name (dir # dirs) lastErr tried =
     (case createBody env name dir of
        (fname, Returns res) \<Rightarrow> (tried @ [fname], res)
      | (fname, Continues err) \<Rightarrow> createLoop env name dirs err (tried @ [fname]))"

definition create ::
  "bool \<Rightarrow> 't env \<Rightarrow> Level \<Rightarrow> 't \<Rightarrow> 't env \<times> string list \<times> (error + string)" where
  "create once env level t =
     (let env' = (if once then env else createLogDirs env)
      in if length (logDirs env') = 0 then (env', [], Inl NoLogDirs)
         else (let (name, link) = logName env' level t;
                   (tried, res) = createLoop env' name (logDirs env') None []
               in (env', tried, res)))"

subsection \<open>Verifying and listing files\<close>

definition verifyFileInfo :: "'t env \<Rightarrow> os_FileInfo \<Rightarrow> error + 't FileDetails" where
  "verifyFileInfo env info =
     (if \<not> fi_IsRegular info then Inl NotARegularFile
      else case parseLogFilename env (fi_Name info) of
             Inl err \<Rightarrow> Inl err
           | Inr details \<Rightarrow> Inr details)"

definition verifyFile :: "'t env \<Rightarrow> string \<Rightarrow> error option" where
  "verifyFile env filename =
     (case Stat env filename of
        Inl err \<Rightarrow> Some err
      | Inr info \<Rightarrow> (case verifyFileInfo env info of Inl err \<Rightarrow> Some err | Inr _ \<Rightarrow> None))"

fun listInfos :: "'t env \<Rightarrow> os_FileInfo list \<Rightarrow> 't FileInfo list \<Rightarrow> 't FileInfo list" where
  "listInfos env [] results = results"
| "listInfos env (info # infos) results =
     (case verifyFileInfo env info of
        Inr details \<Rightarrow>
          listInfos env infos
            (results @ [\<lparr> Name = fi_Name info, SizeBytes = fi_Size info,
                           ModTimeNanos = fi_ModTime info, Details = details \<rparr>])
      | Inl err \<Rightarrow> listInfos env infos results)"

fun listDirs ::
  "'t env \<Rightarrow> string list \<Rightarrow> 't FileInfo list \<Rightarrow> 't FileInfo list \<times> error option" where
  "listDirs env [] results = (results, None)"
| "listDirs env (dir # dirs) results =
     (case ReadDir env dir of
        Inl err \<Rightarrow> (results, Some err)
      | Inr infos \<Rightarrow> listDirs env dirs (listInfos env infos results))"

definition ListLogFiles :: "'t env \<Rightarrow> 't FileInfo list \<times> error option" where
  "ListLogFiles env = listDirs env (logDirs env) []"

subsection \<open>Opening a log file\<close>

text \<open>\<^verbatim>\<open>path.IsAbs\<close> and \<^verbatim>\<open>path.Base\<close>.\<close>

definition IsAbs :: "string \<Rightarrow> bool" where
  "IsAbs p = (case p of [] \<Rightarrow> False | c # _ \<Rightarrow> c = CHR ''/'')"

definition Base :: "string \<Rightarrow> string" where
  "Base p =
     (if p = [] then ''.''
      else (let p1 = rev (dropWhile (\<lambda>c. c = CHR ''/'') (rev p));
                p2 = rev (takeWhile (\<lambda>c. c \<noteq> CHR ''/'') (rev p1))
            in if p2 = [] then ''/'' else p2))"

text \<open>
  An \<^verbatim>\<open>io.ReadCloser\<close> that is not \<^verbatim>\<open>nil\<close> holds either an open file or the nil
  \<^verbatim>\<open>*os.File\<close> that a failed \<^verbatim>\<open>os.Open\<close> returns; \<open>None\<close> is the nil interface.
\<close>

datatype reader = NilFile | File stream

fun readerLoop ::
  "'t env \<Rightarrow> string list \<Rightarrow> string \<Rightarrow> error option \<Rightarrow> reader option \<times> error option" where
  "readerLoop env [] filename err = (None, err)"
| "readerLoop env (dir # dirs) filename err =
     (let filename' = Join env dir filename
      in if verifyFile env filename' = None
         then (case Open env filename' of
                 Inr f \<Rightarrow> (Some (File f), None)
               | Inl err' \<Rightarrow> readerLoop env dirs filename' (Some err'))
         else readerLoop env dirs filename' err)"

definition GetLogReader :: "'t env \<Rightarrow> string \<Rightarrow> bool \<Rightarrow> reader option \<times> error option" where
  "GetLogReader env filename allowAbsolute =
     (if IsAbs filename \<and> \<not> allowAbsolute then (None, Some AbsoluteForbidden)
      else if IsAbs filename \<and> verifyFile env filename = None
      then (case Open env filename of
              Inr f \<Rightarrow> (Some (File f), None)
            | Inl err \<Rightarrow> (Some NilFile, Some err))
      else if Base filename \<noteq> filename then (None, Some BasenamesOnly)
      else if \<not> MatchString filename then (None, Some NotACockroachLog)
      else readerLoop env (logDirs env) filename None)"

subsection \<open>Fetching entries\<close>

text \<open>
  A call either returns a value, returns an error, or panics.  The deferred call
  \<^verbatim>\<open>reader.Close()\<close> of \<^verbatim>\<open>readAllEntriesFromFile\<close> is evaluated before the check
  for a nil reader, and a method of a nil interface value panics.
\<close>

datatype 'a outcome = Return 'a | Failure error | Panic

text \<open>
  The decoding loop: an entry inside the window is put in front of the entries kept so
  far; the end of the stream is \<^verbatim>\<open>io.EOF\<close> or a decoding error.
\<close>

fun decodeLoop ::
  "int64 \<Rightarrow> int64 \<Rightarrow> LogEntry list \<Rightarrow> error option \<Rightarrow> LogEntry list \<Rightarrow> error + LogEntry list" where
  "decodeLoop startTimeNano endTimeNano [] None entries = Inr entries"
| "decodeLoop startTimeNano endTimeNano [] (Some err) entries = Inl err"
| "decodeLoop startTimeNano endTimeNano (entry # rest) fail entries =
     decodeLoop startTimeNano endTimeNano rest fail
       (if startTimeNano \<le>s entry_Time entry \<and> entry_Time entry \<le>s endTimeNano
        then [entry] @ entries else entries)"

definition readAllEntriesFromFile ::
  "'t env \<Rightarrow> 't FileInfo \<Rightarrow> int64 \<Rightarrow> int64 \<Rightarrow> LogEntry list outcome" where
  "readAllEntriesFromFile env file startTimeNano endTimeNano =
     (case GetLogReader env (Name file) False of
        (None, err) \<Rightarrow> Panic
      | (Some rd, Some err) \<Rightarrow> Failure err
      | (Some NilFile, None) \<Rightarrow> Failure (LibError ''invalid argument'')
      | (Some (File st), None) \<Rightarrow>
          (case decodeLoop startTimeNano endTimeNano (decoded st) (failure st) [] of
             Inl err \<Rightarrow> Failure err
           | Inr entries \<Rightarrow> Return entries))"

text \<open>The state of the selection loop of \<^verbatim>\<open>FetchEntiresFromFiles\<close>.\<close>

record 't selection =
  logFileMap :: "int64 \<rightharpoonup> 't FileInfo"
  nanos :: "int64 list"
  diffToStart :: int64
  closestToStartNano :: int64

definition MaxInt64 :: int64 where
  "MaxInt64 = 0x7FFFFFFFFFFFFFFF"

definition selectFile ::
  "'t env \<Rightarrow> Level \<Rightarrow> int64 \<Rightarrow> int64 \<Rightarrow> 't selection \<Rightarrow> 't FileInfo \<Rightarrow> 't selection" where
  "selectFile env level startTimeNano endTimeNano st logFile =
     (if Level (Details logFile) = level
      then (let nano = UnixNano env (Time (Details logFile))
            in if nano \<le>s endTimeNano
               then (let st1 = st\<lparr> logFileMap := (logFileMap st)(nano \<mapsto> logFile),
                                     nanos := nanos st @ [nano] \<rparr>
                     in if nano \<le>s startTimeNano \<and> (startTimeNano - nano) <s diffToStart st1
                        then st1\<lparr> diffToStart := startTimeNano - nano,
                                  closestToStartNano := nano \<rparr>
                        else st1)
               else st)
      else st)"

definition selectFiles ::
  "'t env \<Rightarrow> Level \<Rightarrow> int64 \<Rightarrow> int64 \<Rightarrow> 't FileInfo list \<Rightarrow> 't selection" where
  "selectFiles env level startTimeNano endTimeNano logFiles =
     foldl (selectFile env level startTimeNano endTimeNano)
       \<lparr> logFileMap = Map.empty, nanos = [], diffToStart = MaxInt64, closestToStartNano = 0 \<rparr>
       logFiles"

text \<open>\<^verbatim>\<open>sort.Sort(sort.Reverse(nanos))\<close>: descending in the signed order.\<close>

definition sortReverse :: "int64 list \<Rightarrow> int64 list" where
  "sortReverse ns = rev (sort_key sint ns)"

text \<open>A Go map gives the zero value for a key that is absent.\<close>

definition zeroFileInfo :: "'t env \<Rightarrow> 't FileInfo" where
  "zeroFileInfo env =
     \<lparr> Name = [], SizeBytes = 0, ModTimeNanos = 0,
       Details = \<lparr> Program = [], Host = [], UserName = [], Level = INFO,
                   Time = ZeroTime env, PID = 0 \<rparr> \<rparr>"

definition mapIndex :: "'t env \<Rightarrow> (int64 \<rightharpoonup> 't FileInfo) \<Rightarrow> int64 \<Rightarrow> 't FileInfo" where
  "mapIndex env m nano = (case m nano of Some f \<Rightarrow> f | None \<Rightarrow> zeroFileInfo env)"

text \<open>
  The reading loop.  Besides the entries, the model records the files handed to
  \<^verbatim>\<open>readAllEntriesFromFile\<close>, in the order of the calls: these are the segments the
  fetch opens.
\<close>

fun scanFiles ::
  "'t env \<Rightarrow> (int64 \<rightharpoonup> 't FileInfo) \<Rightarrow> int64 \<Rightarrow> int64 \<Rightarrow> int64 \<Rightarrow> int64 list
     \<Rightarrow> LogEntry list \<Rightarrow> 't FileInfo list \<Rightarrow> 't FileInfo list \<times> LogEntry list outcome" where
  "scanFiles env m startTimeNano endTimeNano closest [] entries opened =
     (opened, Return entries)"
| "scanFiles env m startTimeNano endTimeNano closest (nano # rest) entries opened =
     (let file = mapIndex env m nano
      in case readAllEntriesFromFile env file startTimeNano endTimeNano of
           Panic \<Rightarrow> (opened @ [file], Panic)
         | Failure err \<Rightarrow> (opened @ [file], Failure err)
         | Return newEntries \<Rightarrow>
             (let entries' = entries @ newEntries
              in if EntiresCutoff env \<le> int (length entries')
                 then (opened @ [file], Return entries')
                 else if nano = closest then (opened @ [file], Return entries')
                 else scanFiles env m startTimeNano endTimeNano closest rest entries'
                        (opened @ [file])))"

definition FetchEntiresFromFiles ::
  "'t env \<Rightarrow> Level \<Rightarrow> int64 \<Rightarrow> int64 \<Rightarrow> 't FileInfo list \<times> LogEntry list outcome" where
  "FetchEntiresFromFiles env level startTimeNano endTimeNano =
     (case ListLogFiles env of
        (logFiles, Some err) \<Rightarrow> ([], Failure err)
      | (logFiles, None) \<Rightarrow>
          (let st = selectFiles env level startTimeNano endTimeNano logFiles
           in if length (nanos st) = 0 then ([], Return [])
              else scanFiles env (logFileMap st) startTimeNano endTimeNano
                     (closestToStartNano st) (sortReverse (nanos st)) [] []))"

subsection \<open>Notions used to state the properties\<close>

text \<open>The creation time of a segment in nanoseconds, as the selection loop reads it.\<close>

definition nanoOf :: "'t env \<Rightarrow> 't FileInfo \<Rightarrow> int64" where
  "nanoOf env f = UnixNano env (Time (Details f))"

text \<open>The listed segments that the selection loop keeps, in listing order.\<close>

definition retained :: "'t env \<Rightarrow> Level \<Rightarrow> int64 \<Rightarrow> 't FileInfo list \<Rightarrow> 't FileInfo list" where
  "retained env level endTimeNano fs =
     filter (\<lambda>f. Level (Details f) = level \<and> nanoOf env f \<le>s endTimeNano) fs"

definition inWindow :: "int64 \<Rightarrow> int64 \<Rightarrow> LogEntry \<Rightarrow> bool" where
  "inWindow startTimeNano endTimeNano entry =
     (startTimeNano \<le>s entry_Time entry \<and> entry_Time entry \<le>s endTimeNano)"

text \<open>The entries that the decoder yields from a segment, in decoding order.\<close>

definition decodedOf :: "'t env \<Rightarrow> 't FileInfo \<Rightarrow> LogEntry list" where
  "decodedOf env f =
     (case GetLogReader env (Name f) False of
        (Some (File st), err) \<Rightarrow> decoded st
      | (rd, err) \<Rightarrow> [])"

text \<open>
  The segment kept under a creation time: the map of the selection loop is keyed by the
  creation time, so a later listed segment replaces an earlier one with the same time.
\<close>

definition lastListed :: "'t env \<Rightarrow> Level \<Rightarrow> int64 \<Rightarrow> 't FileInfo list \<Rightarrow> int64 \<Rightarrow> 't FileInfo" where
  "lastListed env level endTimeNano fs n =
     last (filter (\<lambda>f. nanoOf env f = n) (retained env level endTimeNano fs))"

text \<open>The entries of a segment inside the window, the last decoded first.\<close>

definition entriesOf :: "'t env \<Rightarrow> int64 \<Rightarrow> int64 \<Rightarrow> 't FileInfo \<Rightarrow> LogEntry list" where
  "entriesOf env s e f = rev (filter (inWindow s e) (decodedOf env f))"

text \<open>The kept segments created at or before the start of the window.\<close>

definition eligible :: "'t env \<Rightarrow> Level \<Rightarrow> int64 \<Rightarrow> int64 \<Rightarrow> 't FileInfo list \<Rightarrow> 't FileInfo list" where
  "eligible env level s e fs = filter (\<lambda>f. nanoOf env f \<le>s s) (retained env level e fs)"

text \<open>Splitting at every period, as \<^verbatim>\<open>strings.Split(s, ".")\<close> does.\<close>

fun splitDots :: "string \<Rightarrow> string list" where
  "splitDots [] = [[]]"
| "splitDots (c # cs) =
     (if c = CHR ''.'' then [] # splitDots cs
      else (case splitDots cs of f # fs \<Rightarrow> (c # f) # fs | [] \<Rightarrow> [[c]]))"

subsection \<open>Example environments\<close>

text \<open>
  A file system with one log directory \<^verbatim>\<open>/logs\<close> and the given files, each with what
  opening it yields.  Times are seconds since the epoch in UTC; the two tables agree with
  \<^verbatim>\<open>time.Format\<close> and \<^verbatim>\<open>time.Parse\<close> on the instants that the examples use.
\<close>

definition tfmt :: "int \<Rightarrow> string" where
  "tfmt t = (if t = 100 then ''1970-01-01T00:01:40Z''
             else if t = 200 then ''1970-01-01T00:03:20Z''
             else if t = 300 then ''1970-01-01T00:05:00Z''
             else if t = - 8520336000 then ''1700-01-01T00:00:00Z''
             else ''1970-01-01T00:00:00Z'')"

definition tparse :: "string \<Rightarrow> error + int" where
  "tparse s = (if s = ''1970-01-01T00:01:40Z'' then Inr 100
             else if s = ''1970-01-01T00:03:20Z'' then Inr 200
             else if s = ''1970-01-01T00:05:00Z'' then Inr 300
             else if s = ''1700-01-01T00:00:00Z'' then Inr (- 8520336000)
             else if s = ''1970-01-01T00:00:00Z'' then Inr 0
             else Inl (LibError ''parsing time''))"

definition osInfo :: "string \<Rightarrow> os_FileInfo" where
  "osInfo n = \<lparr> fi_Name = n, fi_IsRegular = True, fi_Size = 0, fi_ModTime = 0 \<rparr>"

definition fsEnv :: "(string \<times> (error + stream)) list \<Rightarrow> int \<Rightarrow> int env" where
  "fsEnv files cutoff =
     \<lparr> program = ''cockroach'', host = ''host'', userName = ''user'', pid = 1,
       logDir = ''/logs'', logDirs = [''/logs''], EntiresCutoff = cutoff,
       Format = tfmt, Parse = tparse,
       UnixNano = (\<lambda>t. word_of_int (t * 1000000000)),
       Join = (\<lambda>d f. d @ ''/'' @ f),
       ReadDir = (\<lambda>d. if d = ''/logs'' then Inr (map (\<lambda>(n, c). osInfo n) files)
                       else Inl (LibError ''no such directory'')),
       Stat = (\<lambda>p. case map_of (map (\<lambda>(n, c). (''/logs/'' @ n, osInfo n)) files) p of
                      Some i \<Rightarrow> Inr i | None \<Rightarrow> Inl (LibError ''no such file'')),
       Open = (\<lambda>p. case map_of (map (\<lambda>(n, c). (''/logs/'' @ n, c)) files) p of
                      Some c \<Rightarrow> c | None \<Rightarrow> Inl (LibError ''no such file'')),
       OpenFile = (\<lambda>p. None),
       ZeroTime = - 62135596800 \<rparr>"

definition entryAt :: "int \<Rightarrow> LogEntry" where
  "entryAt t = \<lparr> entry_Time = word_of_int (t * 1000000000), entry_Message = [] \<rparr>"

definition oneEntry :: "int \<Rightarrow> error + stream" where
  "oneEntry t = Inr \<lparr> decoded = [entryAt t], failure = None \<rparr>"

definition segment :: "string \<Rightarrow> Level \<Rightarrow> int \<Rightarrow> int64 \<Rightarrow> int FileInfo" where
  "segment n l t p =
     \<lparr> Name = n, SizeBytes = 0, ModTimeNanos = 0,
       Details = \<lparr> Program = ''cockroach'', Host = ''host'', UserName = ''user'',
                   Level = l, Time = t, PID = p \<rparr> \<rparr>"

definition info100 :: string where "info100 = ''cockroach.host.user.log.INFO.1970-01-01T00_01_40Z.1''"
definition info100b :: string where "info100b = ''cockroach.host.user.log.INFO.1970-01-01T00_01_40Z.2''"
definition info200 :: string where "info200 = ''cockroach.host.user.log.INFO.1970-01-01T00_03_20Z.1''"
definition error300 :: string where "error300 = ''cockroach.host.user.log.ERROR.1970-01-01T00_05_00Z.1''"
definition info1700 :: string where "info1700 = ''cockroach.host.user.log.INFO.1700-01-01T00_00_00Z.1''"

definition scenario :: "int env" where
  "scenario = fsEnv [(info100, oneEntry 100), (info200, oneEntry 200), (error300, oneEntry 300)] 100000"

definition unreadable :: "int env" where
  "unreadable = fsEnv [(info100, Inl (LibError ''permission denied''))] 100000"

definition twoDirs :: "int env" where
  "twoDirs = scenario \<lparr> logDirs := [''/a'', ''/b''],
       OpenFile := (\<lambda>p. if prefix ''/a/'' p then Some (LibError ''permission denied'') else None) \<rparr>"

text \<open>The two INFO segments of the scenario alone.\<close>

definition twoSegments :: "int env" where
  "twoSegments = fsEnv [(info100, oneEntry 100), (info200, oneEntry 200)] 100000"



text \<open>
  A segment named for the first second of the year 1700 beside one of 1970; a window that
  starts in the year 2100 is more than \<open>2 ^ 63\<close> nanoseconds after the former.
\<close>

definition centuries :: "int env" where
  "centuries = fsEnv [(info1700, oneEntry (- 8520336000)), (info100, oneEntry 100)] 100000"

text \<open>What \<^verbatim>\<open>GetLogReader\<close> asks of a relative file name.\<close>

definition basename :: "string \<Rightarrow> bool" where
  "basename n = (\<not> IsAbs n \<and> Base n = n \<and> MatchString n)"

subsection \<open>Properties of the escaping\<close>

lemma Replace_single:
  "Replace s [c] new = concat (map (\<lambda>x. if x = c then new else [x]) s)"
  by (induction s) auto

lemma Replace_absent:
  "c \<notin> set s \<Longrightarrow> Replace s (c # old) new = s"
  by (induction s) auto

lemma Replace_dot_back:
  "CHR ''_'' \<notin> set s \<Longrightarrow> Replace (Replace s ''.'' ''_'') ''_'' ''.'' = s"
  by (induction s) (auto simp: Replace_single)

lemma unescape_escape_without_underscore:
  assumes "CHR ''_'' \<notin> set s"
  shows "unescapeStringForFilename (escapeStringForFilename s) = s"
proof -
  have "escapeStringForFilename s = Replace s ''.'' ''_''"
    using assms by (simp add: escapeStringForFilename_def Replace_absent)
  then have "unescapeStringForFilename (escapeStringForFilename s) = Replace s ''__'' ''_''"
    using assms by (simp add: unescapeStringForFilename_def Replace_dot_back)
  with assms show ?thesis by (simp add: Replace_absent)
qed

text \<open>
  C4.  The claim is that unescaping inverts escaping on every identity string.  The code
  does not: a single underscore is escaped to two underscores, which the first step of
  the unescaping turns into two periods, and the second step then finds no double
  underscore to collapse.  The theorem evaluates the code at the identity \<open>_\<close>.
\<close>

theorem C4_underscore_not_restored:
  "unescapeStringForFilename (escapeStringForFilename ''_'') = ''..''"
  by (simp add: escapeStringForFilename_def unescapeStringForFilename_def)

subsection \<open>The selection loop\<close>

lemma selectFile_nanos:
  "nanos (selectFile env level s e st f) =
     (if Level (Details f) = level \<and> nanoOf env f \<le>s e then nanos st @ [nanoOf env f] else nanos st)"
  by (simp add: selectFile_def nanoOf_def Let_def)

lemma selectFile_map:
  "logFileMap (selectFile env level s e st f) =
     (if Level (Details f) = level \<and> nanoOf env f \<le>s e
      then (logFileMap st)(nanoOf env f \<mapsto> f) else logFileMap st)"
  by (simp add: selectFile_def nanoOf_def Let_def)

lemma selectFiles_Nil:
  "selectFiles env level s e [] =
     \<lparr> logFileMap = Map.empty, nanos = [], diffToStart = MaxInt64, closestToStartNano = 0 \<rparr>"
  by (simp add: selectFiles_def)

lemma selectFiles_snoc:
  "selectFiles env level s e (fs @ [f]) = selectFile env level s e (selectFiles env level s e fs) f"
  by (simp add: selectFiles_def)

lemma selectFiles_nanos:
  "nanos (selectFiles env level s e fs) = map (nanoOf env) (retained env level e fs)"
proof (induction fs rule: rev_induct)
  case Nil
  show ?case by (simp add: selectFiles_Nil retained_def)
next
  case (snoc f fs)
  then show ?case by (simp add: selectFiles_snoc selectFile_nanos retained_def)
qed

lemma selectFiles_map:
  "logFileMap (selectFiles env level s e fs) n =
     (if n \<in> set (map (nanoOf env) (retained env level e fs))
      then Some (lastListed env level e fs n) else None)"
proof (induction fs rule: rev_induct)
  case Nil
  show ?case by (simp add: selectFiles_Nil retained_def)
next
  case (snoc f fs)
  show ?case
  proof (cases "Level (Details f) = level \<and> nanoOf env f \<le>s e")
    case True
    then have r: "retained env level e (fs @ [f]) = retained env level e fs @ [f]"
      by (simp add: retained_def)
    show ?thesis
    proof (cases "nanoOf env f = n")
      case True
      with \<open>Level (Details f) = level \<and> nanoOf env f \<le>s e\<close> show ?thesis
        by (simp add: selectFiles_snoc selectFile_map r lastListed_def)
    next
      case False
      with \<open>Level (Details f) = level \<and> nanoOf env f \<le>s e\<close> snoc show ?thesis
        by (simp add: selectFiles_snoc selectFile_map r lastListed_def)
    qed
  next
    case False
    then have r: "retained env level e (fs @ [f]) = retained env level e fs"
      by (auto simp: retained_def)
    have "logFileMap (selectFiles env level s e (fs @ [f])) = logFileMap (selectFiles env level s e fs)"
      using False by (auto simp: selectFiles_snoc selectFile_map)
    with snoc show ?thesis
      by (simp add: r lastListed_def)
  qed
qed

lemma lastListed_props:
  assumes "n \<in> set (map (nanoOf env) (retained env level e fs))"
  shows "lastListed env level e fs n \<in> set (retained env level e fs)"
    and "nanoOf env (lastListed env level e fs n) = n"
proof -
  let ?c = "filter (\<lambda>f. nanoOf env f = n) (retained env level e fs)"
  from assms have ne: "?c \<noteq> []"
    by (auto simp: filter_empty_conv)
  then have "last ?c \<in> set ?c" by (rule last_in_set)
  then show "lastListed env level e fs n \<in> set (retained env level e fs)"
    and "nanoOf env (lastListed env level e fs n) = n"
    by (simp_all add: lastListed_def)
qed

lemma mapIndex_selected:
  "n \<in> set (map (nanoOf env) (retained env level e fs)) \<Longrightarrow>
   mapIndex env (logFileMap (selectFiles env level s e fs)) n = lastListed env level e fs n"
  by (simp add: mapIndex_def selectFiles_map)

lemma decodeLoop_eq:
  "decodeLoop s e ds fail acc =
     (case fail of None \<Rightarrow> Inr (rev (filter (inWindow s e) ds) @ acc) | Some err \<Rightarrow> Inl err)"
  by (induction ds arbitrary: acc) (auto simp: inWindow_def split: option.splits)

lemma readAll_Return:
  "readAllEntriesFromFile env f s e = Return xs \<Longrightarrow> xs = entriesOf env s e f"
  by (auto simp: readAllEntriesFromFile_def entriesOf_def decodedOf_def decodeLoop_eq
           split: prod.splits option.splits reader.splits sum.splits)

text \<open>The reading loop: trace, result and the cutoff.\<close>

lemma scanFiles_trace:
  "scanFiles env m s e cl ns es tr = (tr', out) \<Longrightarrow>
   \<exists>k\<le>length ns. tr' = tr @ map (mapIndex env m) (take k ns)"
proof (induction ns arbitrary: es tr)
  case Nil
  then show ?case by simp
next
  case (Cons n ns)
  show ?case
  proof (cases "readAllEntriesFromFile env (mapIndex env m n) s e")
    case (Return new)
    show ?thesis
    proof (cases "EntiresCutoff env \<le> int (length (es @ new)) \<or> n = cl")
      case True
      with Cons.prems Return have "tr' = tr @ map (mapIndex env m) (take 1 (n # ns))"
        by (auto simp: Let_def split: if_splits)
      then show ?thesis by (intro exI[of _ 1]) simp
    next
      case False
      with Cons.prems Return
      have "scanFiles env m s e cl ns (es @ new) (tr @ [mapIndex env m n]) = (tr', out)"
        by (simp add: Let_def)
      from Cons.IH[OF this] obtain k where "k \<le> length ns"
        "tr' = (tr @ [mapIndex env m n]) @ map (mapIndex env m) (take k ns)" by blast
      then show ?thesis by (intro exI[of _ "Suc k"]) simp
    qed
  next
    case (Failure err)
    with Cons.prems have "tr' = tr @ map (mapIndex env m) (take 1 (n # ns))" by (auto simp: Let_def)
    then show ?thesis by (intro exI[of _ 1]) simp
  next
    case Panic
    with Cons.prems have "tr' = tr @ map (mapIndex env m) (take 1 (n # ns))" by (auto simp: Let_def)
    then show ?thesis by (intro exI[of _ 1]) simp
  qed
qed

lemma scanFiles_entries:
  "scanFiles env m s e cl ns es tr = (tr', Return es') \<Longrightarrow>
   es = concat (map (entriesOf env s e) tr) \<Longrightarrow>
   es' = concat (map (entriesOf env s e) tr')"
proof (induction ns arbitrary: es tr)
  case Nil
  then show ?case by auto
next
  case (Cons n ns)
  show ?case
  proof (cases "readAllEntriesFromFile env (mapIndex env m n) s e")
    case (Return new)
    then have new: "new = entriesOf env s e (mapIndex env m n)" by (rule readAll_Return)
    show ?thesis
    proof (cases "EntiresCutoff env \<le> int (length (es @ new)) \<or> n = cl")
      case True
      with Cons.prems Return new show ?thesis
        by (auto simp: Let_def split: if_splits)
    next
      case False
      with Cons.prems Return
      have "scanFiles env m s e cl ns (es @ new) (tr @ [mapIndex env m n]) = (tr', Return es')"
        by (simp add: Let_def)
      moreover have "es @ new = concat (map (entriesOf env s e) (tr @ [mapIndex env m n]))"
        using Cons.prems(2) new by simp
      ultimately show ?thesis by (rule Cons.IH)
    qed
  next
    case (Failure err)
    with Cons.prems show ?thesis by (simp add: Let_def)
  next
    case Panic
    with Cons.prems show ?thesis by (simp add: Let_def)
  qed
qed


subsection \<open>The fetch as a whole\<close>

lemma Fetch_error:
  "snd (ListLogFiles env) = Some err \<Longrightarrow>
   FetchEntiresFromFiles env level s e = ([], Failure err)"
  by (cases "ListLogFiles env") (simp add: FetchEntiresFromFiles_def)

lemma Fetch_listed:
  "snd (ListLogFiles env) = None \<Longrightarrow>
   FetchEntiresFromFiles env level s e =
     (if retained env level e (fst (ListLogFiles env)) = [] then ([], Return [])
      else scanFiles env (logFileMap (selectFiles env level s e (fst (ListLogFiles env)))) s e
             (closestToStartNano (selectFiles env level s e (fst (ListLogFiles env))))
             (sortReverse (map (nanoOf env) (retained env level e (fst (ListLogFiles env))))) [] [])"
  by (cases "ListLogFiles env") (simp add: FetchEntiresFromFiles_def Let_def selectFiles_nanos)

lemma set_sortReverse: "set (sortReverse ns) = set ns"
  by (simp add: sortReverse_def)

lemma sorted_sortReverse: "sorted_wrt (\<lambda>a b. b \<le>s a) (sortReverse ns)"
proof -
  have "sorted (map sint (sort_key sint ns))" by (rule sorted_sort_key)
  then have "sorted_wrt (\<lambda>a b. a \<le>s b) (sort_key sint ns)"
    by (simp add: sorted_map word_sle_eq)
  then show ?thesis by (simp add: sortReverse_def sorted_wrt_rev)
qed

lemma Fetch_trace:
  assumes "FetchEntiresFromFiles env level s e = (tr, out)"
  shows "\<exists>k. tr = map (lastListed env level e (fst (ListLogFiles env)))
                 (take k (sortReverse (map (nanoOf env) (retained env level e (fst (ListLogFiles env))))))"
proof (cases "snd (ListLogFiles env)")
  case (Some err)
  from Fetch_error[OF this] assms have "tr = []" by simp
  then show ?thesis by (intro exI[of _ 0]) simp
next
  case None
  let ?fs = "fst (ListLogFiles env)"
  let ?ns = "sortReverse (map (nanoOf env) (retained env level e ?fs))"
  show ?thesis
  proof (cases "retained env level e ?fs = []")
    case True
    with Fetch_listed[OF None] assms have "tr = []" by simp
    then show ?thesis by (intro exI[of _ 0]) simp
  next
    case False
    with Fetch_listed[OF None, of level s e] assms
    have "scanFiles env (logFileMap (selectFiles env level s e ?fs)) s e
            (closestToStartNano (selectFiles env level s e ?fs)) ?ns [] [] = (tr, out)"
      by simp
    from scanFiles_trace[OF this] obtain k where
      tr: "tr = map (mapIndex env (logFileMap (selectFiles env level s e ?fs))) (take k ?ns)"
      by auto
    have "\<And>n. n \<in> set (take k ?ns) \<Longrightarrow>
            mapIndex env (logFileMap (selectFiles env level s e ?fs)) n = lastListed env level e ?fs n"
    proof -
      fix n assume "n \<in> set (take k ?ns)"
      then have "n \<in> set ?ns" by (rule in_set_takeD)
      then have "n \<in> set (map (nanoOf env) (retained env level e ?fs))"
        by (simp only: set_sortReverse)
      then show "mapIndex env (logFileMap (selectFiles env level s e ?fs)) n = lastListed env level e ?fs n"
        by (rule mapIndex_selected)
    qed
    with tr have "tr = map (lastListed env level e ?fs) (take k ?ns)" by simp
    then show ?thesis by blast
  qed
qed

lemma Fetch_opened_nanos:
  assumes "FetchEntiresFromFiles env level s e = (tr, out)"
  shows "\<exists>k. map (nanoOf env) tr =
               take k (sortReverse (map (nanoOf env) (retained env level e (fst (ListLogFiles env)))))"
    and "\<forall>f\<in>set tr. f \<in> set (retained env level e (fst (ListLogFiles env))) \<and>
                     f = lastListed env level e (fst (ListLogFiles env)) (nanoOf env f)"
proof -
  let ?fs = "fst (ListLogFiles env)"
  let ?ns = "sortReverse (map (nanoOf env) (retained env level e ?fs))"
  from Fetch_trace[OF assms] obtain k where tr: "tr = map (lastListed env level e ?fs) (take k ?ns)"
    by blast
  have in_ns: "\<And>n. n \<in> set (take k ?ns) \<Longrightarrow> n \<in> set (map (nanoOf env) (retained env level e ?fs))"
  proof -
    fix n assume "n \<in> set (take k ?ns)"
    then have "n \<in> set ?ns" by (rule in_set_takeD)
    then show "n \<in> set (map (nanoOf env) (retained env level e ?fs))" by (simp only: set_sortReverse)
  qed
  have "map (nanoOf env) tr = map (\<lambda>n. n) (take k ?ns)"
    unfolding tr map_map by (rule map_cong) (auto dest: in_ns simp: lastListed_props(2))
  then show "\<exists>k. map (nanoOf env) tr = take k ?ns" by auto
  show "\<forall>f\<in>set tr. f \<in> set (retained env level e ?fs) \<and> f = lastListed env level e ?fs (nanoOf env f)"
  proof
    fix f assume "f \<in> set tr"
    then obtain n where n: "n \<in> set (take k ?ns)" and f: "f = lastListed env level e ?fs n"
      using tr by auto
    from in_ns[OF n] have "lastListed env level e ?fs n \<in> set (retained env level e ?fs)"
      and "nanoOf env (lastListed env level e ?fs n) = n"
      by (rule lastListed_props)+
    with f show "f \<in> set (retained env level e ?fs) \<and> f = lastListed env level e ?fs (nanoOf env f)"
      by simp
  qed
qed

lemma Fetch_entries:
  assumes "FetchEntiresFromFiles env level s e = (tr, Return es)"
  shows "es = concat (map (entriesOf env s e) tr)"
proof (cases "snd (ListLogFiles env)")
  case (Some err)
  from Fetch_error[OF this] assms show ?thesis by simp
next
  case None
  show ?thesis
  proof (cases "retained env level e (fst (ListLogFiles env)) = []")
    case True
    with Fetch_listed[OF None] assms show ?thesis by simp
  next
    case False
    with Fetch_listed[OF None, of level s e] assms show ?thesis
      by (auto intro: scanFiles_entries)
  qed
qed


subsection \<open>The boundary segment\<close>

lemma sint_MaxInt64: "sint MaxInt64 = 2 ^ 63 - 1"
  by (simp add: MaxInt64_def)

lemma sint_sub_no_overflow:
  fixes a b :: int64
  assumes "b \<le>s a" "sint a - sint b < 2 ^ 63 - 1"
  shows "sint (a - b) = sint a - sint b"
proof -
  from assms(1) have "0 \<le> sint a - sint b" by (simp add: word_sle_eq)
  with assms(2) have "signed_take_bit 63 (sint a - sint b) = sint a - sint b"
    by (intro signed_take_bit_int_eq_self) auto
  then show ?thesis by (simp add: sint_word_ariths)
qed

lemma selectFile_closest:
  "(diffToStart (selectFile env level s e st f), closestToStartNano (selectFile env level s e st f)) =
     (if Level (Details f) = level \<and> nanoOf env f \<le>s e \<and> nanoOf env f \<le>s s
         \<and> (s - nanoOf env f) <s diffToStart st
      then (s - nanoOf env f, nanoOf env f)
      else (diffToStart st, closestToStartNano st))"
  by (simp add: selectFile_def nanoOf_def Let_def)

lemma eligible_snoc:
  "eligible env level s e (fs @ [f]) =
     (if Level (Details f) = level \<and> nanoOf env f \<le>s e \<and> nanoOf env f \<le>s s
      then eligible env level s e fs @ [f] else eligible env level s e fs)"
  by (simp add: eligible_def retained_def)

lemma closest_invariant:
  assumes "\<forall>f\<in>set (eligible env level s e fs). sint s - sint (nanoOf env f) < 2 ^ 63 - 1"
  shows "(eligible env level s e fs = [] \<and>
            diffToStart (selectFiles env level s e fs) = MaxInt64) \<or>
         (closestToStartNano (selectFiles env level s e fs) \<in> nanoOf env ` set (eligible env level s e fs) \<and>
            diffToStart (selectFiles env level s e fs) = s - closestToStartNano (selectFiles env level s e fs) \<and>
            (\<forall>f\<in>set (eligible env level s e fs).
               nanoOf env f \<le>s closestToStartNano (selectFiles env level s e fs)))"
  using assms
proof (induction fs rule: rev_induct)
  case Nil
  show ?case by (simp add: selectFiles_Nil eligible_def retained_def)
next
  case (snoc f fs)
  let ?st = "selectFiles env level s e fs"
  let ?n = "nanoOf env f"
  have sub: "set (eligible env level s e fs) \<subseteq> set (eligible env level s e (fs @ [f]))"
    by (auto simp: eligible_snoc)
  with snoc.prems have H: "\<forall>f\<in>set (eligible env level s e fs). sint s - sint (nanoOf env f) < 2 ^ 63 - 1"
    by blast
  note IH = snoc.IH[OF H]
  have pair: "(diffToStart (selectFiles env level s e (fs @ [f])),
               closestToStartNano (selectFiles env level s e (fs @ [f]))) =
     (if Level (Details f) = level \<and> ?n \<le>s e \<and> ?n \<le>s s \<and> (s - ?n) <s diffToStart ?st
      then (s - ?n, ?n) else (diffToStart ?st, closestToStartNano ?st))"
    by (simp only: selectFiles_snoc selectFile_closest)
  show ?case
  proof (cases "Level (Details f) = level \<and> ?n \<le>s e \<and> ?n \<le>s s")
    case False
    then have el: "eligible env level s e (fs @ [f]) = eligible env level s e fs"
      by (auto simp: eligible_snoc)
    from False pair have "diffToStart (selectFiles env level s e (fs @ [f])) = diffToStart ?st"
      "closestToStartNano (selectFiles env level s e (fs @ [f])) = closestToStartNano ?st"
      by (auto split: if_splits)
    with IH el show ?thesis by simp
  next
    case True
    then have el: "eligible env level s e (fs @ [f]) = eligible env level s e fs @ [f]"
      by (simp add: eligible_snoc)
    from snoc.prems el have nf: "sint s - sint ?n < 2 ^ 63 - 1" by simp
    from True have le: "?n \<le>s s" by simp
    have sf: "sint (s - ?n) = sint s - sint ?n" by (rule sint_sub_no_overflow[OF le nf])
    from IH show ?thesis
    proof
      assume a: "eligible env level s e fs = [] \<and> diffToStart ?st = MaxInt64"
      then have "(s - ?n) <s diffToStart ?st"
        using nf sf by (simp add: word_sless_alt sint_MaxInt64)
      with True pair have "diffToStart (selectFiles env level s e (fs @ [f])) = s - ?n"
        "closestToStartNano (selectFiles env level s e (fs @ [f])) = ?n" by simp_all
      with a el show ?thesis by simp
    next
      assume a: "closestToStartNano ?st \<in> nanoOf env ` set (eligible env level s e fs) \<and>
            diffToStart ?st = s - closestToStartNano ?st \<and>
            (\<forall>f\<in>set (eligible env level s e fs). nanoOf env f \<le>s closestToStartNano ?st)"
      let ?c = "closestToStartNano ?st"
      from a obtain g where g: "g \<in> set (eligible env level s e fs)" "?c = nanoOf env g" by auto
      then have cle: "?c \<le>s s" by (simp add: eligible_def)
      from g H have "sint s - sint ?c < 2 ^ 63 - 1" by auto
      from sint_sub_no_overflow[OF cle this] have sc: "sint (s - ?c) = sint s - sint ?c" .
      show ?thesis
      proof (cases "(s - ?n) <s diffToStart ?st")
        case True
        with a sf sc have lt: "sint ?c < sint ?n" by (simp add: word_sless_alt)
        from True \<open>Level (Details f) = level \<and> ?n \<le>s e \<and> ?n \<le>s s\<close> pair
        have upd: "diffToStart (selectFiles env level s e (fs @ [f])) = s - ?n"
          "closestToStartNano (selectFiles env level s e (fs @ [f])) = ?n" by simp_all
        have "\<forall>h\<in>set (eligible env level s e fs). nanoOf env h \<le>s ?n"
          using a lt by (auto simp: word_sle_eq)
        with upd el show ?thesis by simp
      next
        case False
        with a sf sc have ge: "sint ?n \<le> sint ?c" by (simp add: word_sless_alt)
        from False pair
        have keep: "diffToStart (selectFiles env level s e (fs @ [f])) = diffToStart ?st"
          "closestToStartNano (selectFiles env level s e (fs @ [f])) = ?c" by (auto split: if_splits)
        with a el ge show ?thesis by (auto simp: word_sle_eq)
      qed
    qed
  qed
qed

lemma closest_is_boundary:
  assumes noov: "\<forall>f\<in>set (eligible env level s e fs). sint s - sint (nanoOf env f) < 2 ^ 63 - 1"
    and b: "b \<in> set (eligible env level s e fs)"
    and top: "\<forall>f\<in>set (eligible env level s e fs). nanoOf env f \<le>s nanoOf env b"
  shows "closestToStartNano (selectFiles env level s e fs) = nanoOf env b"
proof -
  let ?c = "closestToStartNano (selectFiles env level s e fs)"
  from closest_invariant[OF noov] b
  have c: "?c \<in> nanoOf env ` set (eligible env level s e fs)"
    and m: "\<forall>f\<in>set (eligible env level s e fs). nanoOf env f \<le>s ?c"
    by auto
  from c top have "?c \<le>s nanoOf env b" by auto
  moreover from m b have "nanoOf env b \<le>s ?c" by auto
  ultimately have "sint ?c = sint (nanoOf env b)" by (simp add: word_sle_eq)
  then show ?thesis by (rule signed_word_eqI)
qed

lemma scanFiles_stop:
  "scanFiles env m s e cl ns es tr = (tr', Return es') \<Longrightarrow>
   int (length es') < EntiresCutoff env \<Longrightarrow> cl \<in> set ns \<Longrightarrow>
   tr' = tr @ map (mapIndex env m) (takeWhile (\<lambda>n. n \<noteq> cl) ns @ [cl])"
proof (induction ns arbitrary: es tr)
  case Nil
  then show ?case by simp
next
  case (Cons n ns)
  show ?case
  proof (cases "readAllEntriesFromFile env (mapIndex env m n) s e")
    case (Return new)
    show ?thesis
    proof (cases "EntiresCutoff env \<le> int (length (es @ new))")
      case True
      with Cons.prems Return show ?thesis by (auto simp: Let_def)
    next
      case nc: False
      show ?thesis
      proof (cases "n = cl")
        case True
        with nc Cons.prems Return show ?thesis by (auto simp: Let_def)
      next
        case False
        with nc Cons.prems Return
        have "scanFiles env m s e cl ns (es @ new) (tr @ [mapIndex env m n]) = (tr', Return es')"
          by (simp add: Let_def)
        moreover from False Cons.prems have "cl \<in> set ns" by simp
        ultimately have "tr' = (tr @ [mapIndex env m n]) @ map (mapIndex env m) (takeWhile (\<lambda>n. n \<noteq> cl) ns @ [cl])"
          using Cons.prems(2) by (intro Cons.IH)
        with False show ?thesis by simp
      qed
    qed
  next
    case (Failure err)
    with Cons.prems show ?thesis by (simp add: Let_def)
  next
    case Panic
    with Cons.prems show ?thesis by (simp add: Let_def)
  qed
qed

lemma takeWhile_boundary:
  "sorted_wrt (\<lambda>a b. b \<le>s a) ns \<Longrightarrow> distinct ns \<Longrightarrow> cl \<in> set ns \<Longrightarrow>
   takeWhile (\<lambda>n. n \<noteq> cl) ns @ [cl] = filter (\<lambda>n. cl \<le>s n) ns"
proof (induction ns)
  case Nil
  then show ?case by simp
next
  case (Cons n ns)
  show ?case
  proof (cases "n = cl")
    case True
    have "filter (\<lambda>n. cl \<le>s n) ns = []"
    proof -
      have "\<forall>x\<in>set ns. \<not> cl \<le>s x"
      proof
        fix x assume x: "x \<in> set ns"
        with Cons.prems True have "x \<le>s cl" "x \<noteq> cl" by auto
        then show "\<not> cl \<le>s x" by (auto simp: word_sle_eq dest: signed_word_eqI)
      qed
      then show ?thesis by (simp add: filter_empty_conv)
    qed
    with True show ?thesis by simp
  next
    case False
    with Cons.prems have "cl \<in> set ns" "cl \<le>s n" by auto
    with Cons False show ?thesis by simp
  qed
qed

lemma insort_key_map:
  "insort_key k (g x) (map g ys) = map g (insort_key (k \<circ> g) x ys)"
  by (induction ys) (simp_all add: comp_def)

lemma sort_key_map:
  "sort_key k (map g xs) = map g (sort_key (k \<circ> g) xs)"
  by (induction xs) (simp_all add: insort_key_map comp_def)

lemma filter_key_distinct:
  "distinct (map g xs) \<Longrightarrow> x \<in> set xs \<Longrightarrow> filter (\<lambda>y. g y = g x) xs = [x]"
proof (induction xs)
  case Nil
  then show ?case by simp
next
  case (Cons a xs)
  show ?case
  proof (cases "a = x")
    case True
    with Cons.prems have "\<forall>y\<in>set xs. g y \<noteq> g x" by (force simp: image_iff)
    then have "filter (\<lambda>y. g y = g x) xs = []" by (simp add: filter_empty_conv)
    with True show ?thesis by simp
  next
    case False
    with Cons.prems have "x \<in> set xs" "g a \<noteq> g x" by auto
    with Cons show ?thesis by simp
  qed
qed

lemma lastListed_distinct:
  "distinct (map (nanoOf env) (retained env level e fs)) \<Longrightarrow>
   f \<in> set (retained env level e fs) \<Longrightarrow>
   lastListed env level e fs (nanoOf env f) = f"
  by (simp add: lastListed_def filter_key_distinct)

text \<open>
  C3, as the code has it.  Take the listed segments of the requested level, their
  creation times distinct, a boundary segment \<open>b\<close> that is the newest one created at or
  before the start of the window, a window whose start is not after its end, and no
  creation time at or before the start so far back that \<^verbatim>\<open>startTimeNano - nano\<close>
  reaches \<^verbatim>\<open>math.MaxInt64\<close>.  Then a successful fetch that stays below the cutoff opens
  exactly the segments created from \<open>b\<close> on and no later than the end of the window, the
  newest first and \<open>b\<close> last; no segment older than \<open>b\<close> is opened.
\<close>

theorem C3_scan_to_boundary:
  assumes fetch: "FetchEntiresFromFiles env level s e = (opened, Return entries)"
    and below: "int (length entries) < EntiresCutoff env"
    and segs: "segs = filter (\<lambda>f. Level (Details f) = level) (fst (ListLogFiles env))"
    and dist: "distinct (map (nanoOf env) segs)"
    and b: "b \<in> set segs" "nanoOf env b \<le>s s"
    and top: "\<forall>f\<in>set segs. nanoOf env f \<le>s s \<longrightarrow> nanoOf env f \<le>s nanoOf env b"
    and win: "s \<le>s e"
    and noov: "\<forall>f\<in>set segs. nanoOf env f \<le>s s \<longrightarrow> sint s - sint (nanoOf env f) < 2 ^ 63 - 1"
  shows "opened = rev (sort_key (\<lambda>f. sint (nanoOf env f))
                    (filter (\<lambda>f. nanoOf env b \<le>s nanoOf env f \<and> nanoOf env f \<le>s e) segs))"
proof -
  let ?fs = "fst (ListLogFiles env)"
  let ?g = "nanoOf env"
  let ?R = "retained env level e ?fs"
  let ?k = "\<lambda>f. sint (nanoOf env f)"
  let ?ns = "sortReverse (map ?g ?R)"
  let ?st = "selectFiles env level s e ?fs"
  have listed: "snd (ListLogFiles env) = None"
  proof (cases "snd (ListLogFiles env)")
    case (Some err)
    from Fetch_error[OF this] fetch show ?thesis by simp
  qed simp
  have R: "?R = filter (\<lambda>f. ?g f \<le>s e) segs"
    by (simp add: retained_def segs conj_commute)
  from b win have "?g b \<le>s e" by (simp add: word_sle_eq)
  with b R have bR: "b \<in> set ?R" by simp
  then have ne: "?R \<noteq> []" by auto
  have el: "set (eligible env level s e ?fs) = {f \<in> set segs. ?g f \<le>s e \<and> ?g f \<le>s s}"
    by (auto simp: eligible_def R)
  have cl: "closestToStartNano ?st = ?g b"
    by (rule closest_is_boundary) (use el b bR top noov in \<open>auto simp: R\<close>)
  from Fetch_listed[OF listed, of level s e] ne fetch cl
  have scan: "scanFiles env (logFileMap ?st) s e (?g b) ?ns [] [] = (opened, Return entries)"
    by simp
  from bR have "?g b \<in> set ?ns" by (simp add: set_sortReverse)
  from scanFiles_stop[OF scan below this]
  have op: "opened = map (mapIndex env (logFileMap ?st)) (takeWhile (\<lambda>n. n \<noteq> ?g b) ?ns @ [?g b])"
    by simp
  have dR: "distinct (map ?g ?R)"
    unfolding R using dist by (simp add: distinct_map_filter)
  then have dns: "distinct ?ns" by (simp add: sortReverse_def)
  have tw: "takeWhile (\<lambda>n. n \<noteq> ?g b) ?ns @ [?g b] = filter (\<lambda>n. ?g b \<le>s n) ?ns"
    by (rule takeWhile_boundary[OF sorted_sortReverse dns \<open>?g b \<in> set ?ns\<close>])
  have ns: "?ns = map ?g (rev (sort_key ?k ?R))"
    by (simp add: sortReverse_def sort_key_map comp_def rev_map)
  have fl: "filter (\<lambda>n. ?g b \<le>s n) ?ns = map ?g (rev (sort_key ?k (filter (\<lambda>f. ?g b \<le>s ?g f) ?R)))"
    unfolding ns by (simp add: filter_map comp_def rev_filter [symmetric] filter_sort)
  let ?sel = "rev (sort_key ?k (filter (\<lambda>f. ?g b \<le>s ?g f) ?R))"
  have sub: "set ?sel \<subseteq> set ?R" by auto
  have "map (mapIndex env (logFileMap ?st)) (map ?g ?sel) = ?sel"
  proof -
    have "\<And>f. f \<in> set ?sel \<Longrightarrow> mapIndex env (logFileMap ?st) (?g f) = f"
    proof -
      fix f assume "f \<in> set ?sel"
      with sub have f: "f \<in> set ?R" by blast
      then have "?g f \<in> set (map ?g ?R)" by simp
      then have "mapIndex env (logFileMap ?st) (?g f) = lastListed env level e ?fs (?g f)"
        by (rule mapIndex_selected)
      also have "\<dots> = f" by (rule lastListed_distinct[OF dR f])
      finally show "mapIndex env (logFileMap ?st) (?g f) = f" .
    qed
    then have "map (\<lambda>f. mapIndex env (logFileMap ?st) (?g f)) ?sel = ?sel"
      by (intro map_idI) 
    then show ?thesis by (simp add: comp_def)
  qed
  with op tw fl have "opened = ?sel" by simp
  moreover have "filter (\<lambda>f. ?g b \<le>s ?g f) ?R = filter (\<lambda>f. ?g b \<le>s ?g f \<and> ?g f \<le>s e) segs"
    unfolding R by (simp add: conj_commute)
  ultimately show ?thesis by simp
qed

subsection \<open>Evaluating the example environments\<close>

lemma fsEnv_fields:
  "logDirs (fsEnv fs c) = [''/logs'']"
  "EntiresCutoff (fsEnv fs c) = c"
  "Parse (fsEnv fs c) = tparse"
  "Format (fsEnv fs c) = tfmt"
  "UnixNano (fsEnv fs c) t = word_of_int (t * 1000000000)"
  "Join (fsEnv fs c) d f = d @ ''/'' @ f"
  "ReadDir (fsEnv fs c) ''/logs'' = Inr (map (\<lambda>(n, c). osInfo n) fs)"
  "program (fsEnv fs c) = ''cockroach''"
  "host (fsEnv fs c) = ''host''"
  "userName (fsEnv fs c) = ''user''"
  "pid (fsEnv fs c) = 1"
  by (simp_all add: fsEnv_def)

lemma fsEnv_Stat:
  "Stat (fsEnv fs c) (''/logs/'' @ n) =
     (case map_of fs n of Some x \<Rightarrow> Inr (osInfo n) | None \<Rightarrow> Inl (LibError ''no such file''))"
proof -
  have "map_of (map (\<lambda>(n, c). (''/logs/'' @ n, osInfo n)) fs) (''/logs/'' @ n) =
          (case map_of fs n of Some x \<Rightarrow> Some (osInfo n) | None \<Rightarrow> None)"
    by (induction fs) auto
  then show ?thesis by (simp add: fsEnv_def split: option.splits)
qed

lemma fsEnv_Open:
  "Open (fsEnv fs c) (''/logs/'' @ n) =
     (case map_of fs n of Some x \<Rightarrow> x | None \<Rightarrow> Inl (LibError ''no such file''))"
proof -
  have "map_of (map (\<lambda>(n, c). (''/logs/'' @ n, c)) fs) (''/logs/'' @ n) = map_of fs n"
    by (induction fs) auto
  then show ?thesis by (simp add: fsEnv_def split: option.splits)
qed

lemmas match_defs = matchHere_def fieldDot_def notDot_def literal_def severityGroup_def
  isDigit_def Let_def

lemmas parse_defs = parseLogFilename_def match_defs LevelFromString_def tparse_def
  ParseInt_def ParseUint_def digitVal_def unescapeStringForFilename_def

lemma parse_info100:
  "Parse env = tparse \<Longrightarrow> parseLogFilename env info100 = Inr (Details (segment info100 INFO 100 1))"
  by (simp add: parse_defs info100_def segment_def)

lemma parse_info100b:
  "Parse env = tparse \<Longrightarrow> parseLogFilename env info100b = Inr (Details (segment info100b INFO 100 2))"
  by (simp add: parse_defs info100b_def segment_def)

lemma parse_info200:
  "Parse env = tparse \<Longrightarrow> parseLogFilename env info200 = Inr (Details (segment info200 INFO 200 1))"
  by (simp add: parse_defs info200_def segment_def)

lemma parse_error300:
  "Parse env = tparse \<Longrightarrow> parseLogFilename env error300 = Inr (Details (segment error300 ERROR 300 1))"
  by (simp add: parse_defs error300_def segment_def)

lemma parse_info1700:
  "Parse env = tparse \<Longrightarrow>
   parseLogFilename env info1700 = Inr (Details (segment info1700 INFO (- 8520336000) 1))"
  by (simp add: parse_defs info1700_def segment_def)

lemmas parse_known = parse_info100 parse_info100b parse_info200 parse_error300 parse_info1700

lemma basename_known:
  "basename info100" "basename info100b" "basename info200" "basename error300" "basename info1700"
  by (simp_all add: basename_def IsAbs_def Base_def MatchString_def match_defs
        info100_def info100b_def info200_def error300_def info1700_def)

lemma verify_known:
  "verifyFileInfo (fsEnv fs c) (osInfo info100) = Inr (Details (segment info100 INFO 100 1))"
  "verifyFileInfo (fsEnv fs c) (osInfo info100b) = Inr (Details (segment info100b INFO 100 2))"
  "verifyFileInfo (fsEnv fs c) (osInfo info200) = Inr (Details (segment info200 INFO 200 1))"
  "verifyFileInfo (fsEnv fs c) (osInfo error300) = Inr (Details (segment error300 ERROR 300 1))"
  "verifyFileInfo (fsEnv fs c) (osInfo info1700) = Inr (Details (segment info1700 INFO (- 8520336000) 1))"
  by (simp_all add: verifyFileInfo_def osInfo_def parse_known fsEnv_fields)

lemma listed_segment:
  "\<lparr> Name = fi_Name (osInfo n), SizeBytes = fi_Size (osInfo n),
      ModTimeNanos = fi_ModTime (osInfo n), Details = Details (segment n l t p) \<rparr> = segment n l t p"
  by (simp add: osInfo_def segment_def)

lemmas list_defs = ListLogFiles_def fsEnv_fields verify_known listed_segment

lemma scenario_list:
  "ListLogFiles scenario =
     ([segment info100 INFO 100 1, segment info200 INFO 200 1, segment error300 ERROR 300 1], None)"
  by (simp add: scenario_def list_defs)

lemma twoSegments_list:
  "ListLogFiles twoSegments = ([segment info100 INFO 100 1, segment info200 INFO 200 1], None)"
  by (simp add: twoSegments_def list_defs)



lemma centuries_list:
  "ListLogFiles centuries =
     ([segment info1700 INFO (- 8520336000) 1, segment info100 INFO 100 1], None)"
  by (simp add: centuries_def list_defs)

lemma unreadable_list: "ListLogFiles unreadable = ([segment info100 INFO 100 1], None)"
  by (simp add: unreadable_def list_defs)

lemmas fsEnv_Stat_Cons = fsEnv_Stat [simplified]

lemmas fsEnv_Open_Cons = fsEnv_Open [simplified]

lemma verifyFile_known:
  assumes "n \<in> {info100, info100b, info200, error300, info1700}"
  shows "verifyFile (fsEnv fs c) (''/logs/'' @ n) = (case map_of fs n of Some x \<Rightarrow> None | None \<Rightarrow> Some (LibError ''no such file''))"
  using assms by (auto simp: verifyFile_def fsEnv_Stat_Cons verify_known split: option.splits)

lemma GetLogReader_known:
  assumes "n \<in> {info100, info100b, info200, error300, info1700}"
  shows "GetLogReader (fsEnv fs c) n False =
     (case map_of fs n of
        Some (Inr st) \<Rightarrow> (Some (File st), None)
      | Some (Inl err) \<Rightarrow> (None, Some err)
      | None \<Rightarrow> (None, None))"
proof -
  from assms basename_known have "basename n" by auto
  then have b: "\<not> IsAbs n" "Base n = n" "MatchString n" by (simp_all add: basename_def)
  have j: "Join (fsEnv fs c) ''/logs'' n = ''/logs/'' @ n" by (simp add: fsEnv_fields)
  show ?thesis
    by (simp add: GetLogReader_def b fsEnv_fields(1) j verifyFile_known[OF assms, simplified]
          fsEnv_Open_Cons split: option.splits sum.splits)
qed

lemma readAll_known:
  assumes "Name f \<in> {info100, info100b, info200, error300, info1700}"
  shows "readAllEntriesFromFile (fsEnv fs c) f s e =
     (case map_of fs (Name f) of
        Some (Inr st) \<Rightarrow> (case failure st of None \<Rightarrow> Return (rev (filter (inWindow s e) (decoded st)))
                                              | Some err \<Rightarrow> Failure err)
      | Some (Inl err) \<Rightarrow> Panic
      | None \<Rightarrow> Panic)"
  by (simp add: readAllEntriesFromFile_def GetLogReader_known[OF assms] decodeLoop_eq
        split: option.splits sum.splits)

lemma Name_segment: "Name (segment n l t p) = n"
  by (simp add: segment_def)

lemma known_names:
  "info100 \<in> {info100, info100b, info200, error300, info1700}"
  "info100b \<in> {info100, info100b, info200, error300, info1700}"
  "info200 \<in> {info100, info100b, info200, error300, info1700}"
  "error300 \<in> {info100, info100b, info200, error300, info1700}"
  "info1700 \<in> {info100, info100b, info200, error300, info1700}"
  by simp_all

lemma distinct_names:
  "info100 \<noteq> info100b" "info100 \<noteq> info200" "info100 \<noteq> error300" "info100 \<noteq> info1700"
  "info200 \<noteq> info100" "info200 \<noteq> error300" "error300 \<noteq> info100" "error300 \<noteq> info200"
  "info100b \<noteq> info100" "info1700 \<noteq> info100"
  by (simp_all add: info100_def info100b_def info200_def error300_def info1700_def)

lemma segment_fields:
  "Level (Details (segment n l t p)) = l"
  "Time (Details (segment n l t p)) = t"
  by (simp_all add: segment_def)

lemmas fetch_defs = FetchEntiresFromFiles_def selectFiles_def selectFile_def segment_fields
  Name_segment fsEnv_fields sortReverse_def mapIndex_def readAll_known known_names distinct_names
  oneEntry_def inWindow_def entryAt_def word_sle_eq word_sless_alt MaxInt64_def Let_def

lemma scenario_fetch:
  "FetchEntiresFromFiles scenario INFO 50000000000 250000000000 =
     ([segment info200 INFO 200 1, segment info100 INFO 100 1],
      Return [entryAt 200, entryAt 100])"
  unfolding FetchEntiresFromFiles_def scenario_list by (simp add: scenario_def fetch_defs)

lemma scenario_fetch_150:
  "FetchEntiresFromFiles scenario INFO 150000000000 250000000000 =
     ([segment info200 INFO 200 1, segment info100 INFO 100 1],
      Return [entryAt 200])"
  unfolding FetchEntiresFromFiles_def scenario_list by (simp add: scenario_def fetch_defs)

lemma twoSegments_fetch_reversed:
  "FetchEntiresFromFiles twoSegments INFO 250000000000 150000000000 =
     ([segment info100 INFO 100 1], Return [])"
  unfolding FetchEntiresFromFiles_def twoSegments_list by (simp add: twoSegments_def fetch_defs)




lemma centuries_fetch:
  "FetchEntiresFromFiles centuries INFO 4102444800000000000 4102444800000000000 =
     ([segment info100 INFO 100 1, segment info1700 INFO (- 8520336000) 1], Return [])"
  unfolding FetchEntiresFromFiles_def centuries_list by (simp add: centuries_def fetch_defs)

lemma unreadable_fetch:
  "FetchEntiresFromFiles unreadable INFO 50000000000 250000000000 = ([segment info100 INFO 100 1], Panic)"
  unfolding FetchEntiresFromFiles_def unreadable_list by (simp add: unreadable_def fetch_defs)

subsection \<open>Order, cutoff and selection of the fetch\<close>

lemma sorted_wrt_concat_map:
  "(\<forall>x\<in>set xs. sorted_wrt P (h x)) \<Longrightarrow>
   sorted_wrt (\<lambda>x y. \<forall>a\<in>set (h x). \<forall>b\<in>set (h y). P a b) xs \<Longrightarrow>
   sorted_wrt P (concat (map h xs))"
  by (induction xs) (auto simp: sorted_wrt_append)

lemma entriesOf_sorted:
  "sorted_wrt (\<lambda>a b. entry_Time a \<le>s entry_Time b) (decodedOf env f) \<Longrightarrow>
   sorted_wrt (\<lambda>a b. entry_Time b \<le>s entry_Time a) (entriesOf env s e f)"
  by (simp add: entriesOf_def sorted_wrt_rev sorted_wrt_filter)

lemma set_entriesOf: "set (entriesOf env s e f) \<subseteq> set (decodedOf env f)"
  by (auto simp: entriesOf_def)

lemma decodedOf_known:
  assumes "Name f \<in> {info100, info100b, info200, error300, info1700}"
  shows "decodedOf (fsEnv fs c) f =
           (case map_of fs (Name f) of Some (Inr st) \<Rightarrow> decoded st | Some (Inl err) \<Rightarrow> [] | None \<Rightarrow> [])"
  by (simp add: decodedOf_def GetLogReader_known[OF assms] split: option.splits sum.splits)

lemmas decoded_defs = decodedOf_known Name_segment known_names distinct_names oneEntry_def

text \<open>
  C1.  The claim is that a successful fetch returns the entries in non-decreasing time
  order, the entry at 100 before the entry at 200 in the scenario.  The code reads the
  newest segment first and puts each entry it keeps in front of the entries of its
  segment, so the order is the reverse: the scenario gives the entry at 200 first.
\<close>

theorem C1_scenario_newest_first:
  "snd (FetchEntiresFromFiles scenario INFO 50000000000 250000000000) =
     Return [entryAt 200, entryAt 100]
   \<and> \<not> entry_Time (entryAt 200) \<le>s entry_Time (entryAt 100)"
  by (simp add: scenario_fetch entryAt_def word_sle_eq)

text \<open>
  C1, as the code has it.  The entries returned are, for each opened segment in turn,
  the entries of that segment inside the window, the last decoded first; the segments
  are opened in non-increasing order of creation time.  So when every segment was written
  in time order and no entry of a segment is older than an entry of a segment opened
  after it, the result is in non-increasing time order, the newest entry first.
\<close>

theorem C1_entries_newest_first:
  assumes "FetchEntiresFromFiles env level s e = (opened, Return entries)"
  shows "entries = concat (map (entriesOf env s e) opened)
       \<and> sorted_wrt (\<lambda>f g. nanoOf env g \<le>s nanoOf env f) opened
       \<and> ((\<forall>f\<in>set opened. sorted_wrt (\<lambda>a b. entry_Time a \<le>s entry_Time b) (decodedOf env f))
            \<and> sorted_wrt (\<lambda>f g. \<forall>a\<in>set (decodedOf env f). \<forall>b\<in>set (decodedOf env g).
                                   entry_Time b \<le>s entry_Time a) opened
          \<longrightarrow> sorted_wrt (\<lambda>a b. entry_Time b \<le>s entry_Time a) entries)"
proof (intro conjI impI)
  show ent: "entries = concat (map (entriesOf env s e) opened)"
    by (rule Fetch_entries[OF assms])
  from Fetch_opened_nanos(1)[OF assms] obtain k where
    k: "map (nanoOf env) opened =
          take k (sortReverse (map (nanoOf env) (retained env level e (fst (ListLogFiles env)))))"
    by blast
  have "sorted_wrt (\<lambda>a b. b \<le>s a) (map (nanoOf env) opened)"
    unfolding k by (rule sorted_wrt_take[OF sorted_sortReverse])
  then show "sorted_wrt (\<lambda>f g. nanoOf env g \<le>s nanoOf env f) opened"
    by (simp add: sorted_wrt_map)
  assume chron: "(\<forall>f\<in>set opened. sorted_wrt (\<lambda>a b. entry_Time a \<le>s entry_Time b) (decodedOf env f))
     \<and> sorted_wrt (\<lambda>f g. \<forall>a\<in>set (decodedOf env f). \<forall>b\<in>set (decodedOf env g).
                           entry_Time b \<le>s entry_Time a) opened"
  have "sorted_wrt (\<lambda>f g. \<forall>a\<in>set (entriesOf env s e f). \<forall>b\<in>set (entriesOf env s e g).
                            entry_Time b \<le>s entry_Time a) opened"
    by (rule sorted_wrt_mono_rel[OF _ conjunct2[OF chron]]) (use set_entriesOf in blast)
  with chron show "sorted_wrt (\<lambda>a b. entry_Time b \<le>s entry_Time a) entries"
    unfolding ent by (intro sorted_wrt_concat_map) (auto intro: entriesOf_sorted)
qed

theorem C1_entries_newest_first_witness:
  "FetchEntiresFromFiles scenario INFO 50000000000 250000000000 =
     ([segment info200 INFO 200 1, segment info100 INFO 100 1], Return [entryAt 200, entryAt 100])
   \<and> [entryAt 200, entryAt 100] =
       concat (map (entriesOf scenario 50000000000 250000000000)
                 [segment info200 INFO 200 1, segment info100 INFO 100 1])
   \<and> sorted_wrt (\<lambda>a b. entry_Time b \<le>s entry_Time a) [entryAt 200, entryAt 100]"
proof -
  have chron:
    "(\<forall>f\<in>set [segment info200 INFO 200 1, segment info100 INFO 100 1].
        sorted_wrt (\<lambda>a b. entry_Time a \<le>s entry_Time b) (decodedOf scenario f))
     \<and> sorted_wrt (\<lambda>f g. \<forall>a\<in>set (decodedOf scenario f). \<forall>b\<in>set (decodedOf scenario g).
                           entry_Time b \<le>s entry_Time a)
          [segment info200 INFO 200 1, segment info100 INFO 100 1]"
    by (simp add: scenario_def decoded_defs entryAt_def word_sle_eq)
  from C1_entries_newest_first[OF scenario_fetch] chron scenario_fetch show ?thesis
    by blast
qed




text \<open>
  C7.  The selection loop keeps, and the reading loop opens, only listed segments whose
  decoded severity equals the requested level and whose decoded creation time is at most
  the end of the window.
\<close>

theorem C7_only_matching_segments:
  assumes "ListLogFiles env = (logFiles, None)"
  shows "(\<forall>f\<in>ran (logFileMap (selectFiles env level startTimeNano endTimeNano logFiles)).
            f \<in> set logFiles \<and> Level (Details f) = level
            \<and> UnixNano env (Time (Details f)) \<le>s endTimeNano)
       \<and> (\<forall>f\<in>set (fst (FetchEntiresFromFiles env level startTimeNano endTimeNano)).
            f \<in> set logFiles \<and> Level (Details f) = level
            \<and> UnixNano env (Time (Details f)) \<le>s endTimeNano)"
proof -
  have kept: "\<And>f. f \<in> set (retained env level endTimeNano logFiles) \<Longrightarrow>
      f \<in> set logFiles \<and> Level (Details f) = level \<and> UnixNano env (Time (Details f)) \<le>s endTimeNano"
    by (simp add: retained_def nanoOf_def)
  have "f \<in> set (retained env level endTimeNano logFiles)"
    if "f \<in> ran (logFileMap (selectFiles env level startTimeNano endTimeNano logFiles))" for f
  proof -
    from that obtain n where
      n: "logFileMap (selectFiles env level startTimeNano endTimeNano logFiles) n = Some f"
      by (auto simp: ran_def)
    then have "n \<in> set (map (nanoOf env) (retained env level endTimeNano logFiles))"
      and "f = lastListed env level endTimeNano logFiles n"
      by (auto simp: selectFiles_map split: if_splits)
    with lastListed_props(1)[of n env level endTimeNano logFiles] show ?thesis by simp
  qed
  moreover have "f \<in> set (retained env level endTimeNano logFiles)"
    if f: "f \<in> set (fst (FetchEntiresFromFiles env level startTimeNano endTimeNano))" for f
  proof -
    obtain tr out where fetch: "FetchEntiresFromFiles env level startTimeNano endTimeNano = (tr, out)"
      by (cases "FetchEntiresFromFiles env level startTimeNano endTimeNano")
    from Fetch_opened_nanos(2)[OF fetch] f fetch assms show ?thesis by simp
  qed
  ultimately show ?thesis using kept by blast
qed

theorem C7_only_matching_segments_witness:
  "ListLogFiles scenario =
     ([segment info100 INFO 100 1, segment info200 INFO 200 1, segment error300 ERROR 300 1], None)
   \<and> segment info200 INFO 200 1 \<in> set (fst (FetchEntiresFromFiles scenario INFO 50000000000 250000000000))
   \<and> Level (Details (segment info200 INFO 200 1)) = INFO
   \<and> UnixNano scenario (Time (Details (segment info200 INFO 200 1))) \<le>s 250000000000"
proof -
  have m: "segment info200 INFO 200 1
             \<in> set (fst (FetchEntiresFromFiles scenario INFO 50000000000 250000000000))"
    by (simp add: scenario_fetch)
  from C7_only_matching_segments[OF scenario_list, of INFO 50000000000 250000000000] m scenario_list
  show ?thesis by blast
qed




theorem C3_scan_to_boundary_witness:
  "FetchEntiresFromFiles scenario INFO 150000000000 250000000000 =
     ([segment info200 INFO 200 1, segment info100 INFO 100 1], Return [entryAt 200])
   \<and> [segment info200 INFO 200 1, segment info100 INFO 100 1] =
       rev (sort_key (\<lambda>f. sint (nanoOf scenario f))
         (filter (\<lambda>f. nanoOf scenario (segment info100 INFO 100 1) \<le>s nanoOf scenario f
                      \<and> nanoOf scenario f \<le>s 250000000000)
            [segment info100 INFO 100 1, segment info200 INFO 200 1]))"
proof -
  let ?segs = "[segment info100 INFO 100 1, segment info200 INFO 200 1]"
  have n: "nanoOf scenario (segment info100 INFO 100 1) = 100000000000"
    "nanoOf scenario (segment info200 INFO 200 1) = 200000000000"
    by (simp_all add: nanoOf_def scenario_def fsEnv_fields segment_fields)
  have segs: "?segs = filter (\<lambda>f. Level (Details f) = INFO) (fst (ListLogFiles scenario))"
    by (simp add: scenario_list segment_fields)
  have h: "int (length [entryAt 200]) < EntiresCutoff scenario"
    "distinct (map (nanoOf scenario) ?segs)"
    "segment info100 INFO 100 1 \<in> set ?segs"
    "nanoOf scenario (segment info100 INFO 100 1) \<le>s 150000000000"
    "\<forall>f\<in>set ?segs. nanoOf scenario f \<le>s 150000000000 \<longrightarrow>
        nanoOf scenario f \<le>s nanoOf scenario (segment info100 INFO 100 1)"
    "(150000000000 :: int64) \<le>s 250000000000"
    "\<forall>f\<in>set ?segs. nanoOf scenario f \<le>s 150000000000 \<longrightarrow>
        sint (150000000000 :: int64) - sint (nanoOf scenario f) < 2 ^ 63 - 1"
    by (simp_all add: n word_sle_eq) (simp add: scenario_def fsEnv_fields)
  from C3_scan_to_boundary[OF scenario_fetch_150 h(1) segs h(2-7)] scenario_fetch_150
  show ?thesis by blast
qed

text \<open>
  C3.  The claim: with segments of one severity at distinct creation times and a
  boundary segment, the newest one created at or before the start of the window, a
  successful fetch that stays below the cutoff opens exactly the segments from the
  boundary segment up to the end of the window, newest first, and none older.  Two
  inputs show otherwise.  The code keeps the segments created up to the end of the
  window and looks for the boundary among them only: with segments at 100 and 200 and a
  window from 250 back to 150 the boundary segment is the one at 200, which is not kept, and the
  fetch opens the older segment at 100.  And the code finds the boundary by the smallest
  \<^verbatim>\<open>startTimeNano - nano\<close>, an \<^verbatim>\<open>int64\<close> subtraction that wraps around when the
  two are more than \<open>2 ^ 63\<close> nanoseconds apart: with segments of the years 1700 and
  1970 and a window that starts and ends in 2100, the boundary segment is the one of
  1970, the difference for the one of 1700 wraps to a negative number, and the fetch
  goes on to open the segment of 1700.
\<close>

theorem C3_scan_past_boundary:
  "ListLogFiles twoSegments = ([segment info100 INFO 100 1, segment info200 INFO 200 1], None)
   \<and> nanoOf twoSegments (segment info100 INFO 100 1) <s nanoOf twoSegments (segment info200 INFO 200 1)
   \<and> nanoOf twoSegments (segment info200 INFO 200 1) \<le>s 250000000000
   \<and> FetchEntiresFromFiles twoSegments INFO 250000000000 150000000000 =
       ([segment info100 INFO 100 1], Return [])
   \<and> ListLogFiles centuries =
       ([segment info1700 INFO (- 8520336000) 1, segment info100 INFO 100 1], None)
   \<and> nanoOf centuries (segment info1700 INFO (- 8520336000) 1)
        <s nanoOf centuries (segment info100 INFO 100 1)
   \<and> nanoOf centuries (segment info100 INFO 100 1) \<le>s 4102444800000000000
   \<and> FetchEntiresFromFiles centuries INFO 4102444800000000000 4102444800000000000 =
       ([segment info100 INFO 100 1, segment info1700 INFO (- 8520336000) 1], Return [])
   \<and> closestToStartNano (selectFiles centuries INFO 4102444800000000000 4102444800000000000
         [segment info1700 INFO (- 8520336000) 1, segment info100 INFO 100 1])
       = nanoOf centuries (segment info1700 INFO (- 8520336000) 1)"
  by (simp add: twoSegments_list twoSegments_fetch_reversed centuries_list centuries_fetch)
     (simp add: twoSegments_def centuries_def nanoOf_def segment_fields fsEnv_fields selectFiles_def
        selectFile_def word_sle_eq word_sless_alt MaxInt64_def Let_def)

subsection \<open>A segment that cannot be opened\<close>

text \<open>
  C9.  The claim: when a selected segment cannot be opened, the fetch returns an error
  and never crashes.  In \<^verbatim>\<open>readAllEntriesFromFile\<close> the statement
  \<^verbatim>\<open>defer reader.Close()\<close> comes before the test \<^verbatim>\<open>reader == nil\<close>; when
  \<^verbatim>\<open>os.Open\<close> fails for a listed file, \<^verbatim>\<open>GetLogReader\<close> returns a nil reader
  with the error and the deferred method call on the nil interface panics.
\<close>

theorem C9_unreadable_segment_panics:
  "ListLogFiles unreadable = ([segment info100 INFO 100 1], None)
   \<and> GetLogReader unreadable info100 False = (None, Some (LibError ''permission denied''))
   \<and> FetchEntiresFromFiles unreadable INFO 50000000000 250000000000 =
       ([segment info100 INFO 100 1], Panic)"
  by (simp add: unreadable_list unreadable_fetch)
     (simp add: unreadable_def GetLogReader_known known_names)

subsection \<open>Creating a segment in the first directory\<close>

lemma twoDirs_logName: "logName twoDirs INFO 100 = (info100, ''cockroach.INFO'')"
  by (simp add: logName_def twoDirs_def scenario_def fsEnv_def tfmt_def escapeStringForFilename_def
        FormatInt_def decimal.simps digitChar_def info100_def)

lemma twoDirs_fields:
  "logDirs twoDirs = [''/a'', ''/b'']"
  "Join twoDirs d f = d @ ''/'' @ f"
  "OpenFile twoDirs p = (if prefix ''/a/'' p then Some (LibError ''permission denied'') else None)"
  by (simp_all add: twoDirs_def scenario_def fsEnv_def)

text \<open>
  C8.  The claim: \<^verbatim>\<open>create\<close> returns an error only after it has tried every
  candidate directory.  The loop returns at the first directory in which
  \<^verbatim>\<open>os.OpenFile\<close> fails; the assignment \<^verbatim>\<open>lastErr = err\<close> and the error after the
  loop are never reached.  With the directories \<^verbatim>\<open>/a\<close> and \<^verbatim>\<open>/b\<close>, where a file
  can be opened in \<^verbatim>\<open>/b\<close> only, \<^verbatim>\<open>create\<close> tries \<^verbatim>\<open>/a\<close> and returns the error.
\<close>

theorem C8_create_stops_at_first_failure:
  "logDirs twoDirs = [''/a'', ''/b'']
   \<and> OpenFile twoDirs (''/b/'' @ info100) = None
   \<and> snd (create True twoDirs INFO 100) =
       ([''/a/'' @ info100], Inl (CannotCreateLog (Some (LibError ''permission denied''))))"
  by (simp add: create_def twoDirs_logName createBody_def twoDirs_fields)

subsection \<open>The file name codec\<close>

lemma escape_eq:
  "escapeStringForFilename s =
     concat (map (\<lambda>x. if x = CHR ''_'' then ''__'' else if x = CHR ''.'' then ''_'' else [x]) s)"
  by (induction s) (simp_all add: escapeStringForFilename_def Replace_single)

lemma escape_no_dot: "CHR ''.'' \<notin> set (escapeStringForFilename s)"
  by (auto simp: escape_eq split: if_splits)

lemma escape_nonempty: "s \<noteq> [] \<Longrightarrow> escapeStringForFilename s \<noteq> []"
  by (cases s) (auto simp: escape_eq)

lemma Replace_colon_no_dot:
  "CHR ''.'' \<notin> set s \<Longrightarrow> CHR ''.'' \<notin> set (Replace s '':'' ''_'')"
  by (auto simp: Replace_single split: if_splits)

lemma Replace_colon_nonempty: "s \<noteq> [] \<Longrightarrow> Replace s '':'' ''_'' \<noteq> []"
  by (cases s) (auto simp: Replace_single)

lemma Replace_colon_back:
  "CHR ''_'' \<notin> set s \<Longrightarrow> Replace (Replace s '':'' ''_'') ''_'' '':'' = s"
  by (induction s) (auto simp: Replace_single)

lemma fieldDot_field:
  assumes "g \<noteq> []" "CHR ''.'' \<notin> set g"
  shows "fieldDot (g @ ''.'' @ r) = Some (g, r)"
proof -
  from assms(2) have nd: "\<And>x. x \<in> set g \<Longrightarrow> notDot x" by (auto simp: notDot_def)
  have "takeWhile notDot (g @ ''.'' @ r) = g"
    using nd by (simp add: takeWhile_append2 notDot_def)
  moreover have "dropWhile notDot (g @ ''.'' @ r) = ''.'' @ r"
    using nd by (simp add: dropWhile_append2 notDot_def)
  ultimately show ?thesis using assms(1) by (simp add: fieldDot_def)
qed

lemma severityGroup_level:
  "level \<noteq> FATAL \<Longrightarrow> severityGroup (Level_String level @ r) = Some (Level_String level, r)"
  by (cases level) (simp_all add: severityGroup_def)

lemma LevelFromString_String: "LevelFromString (Level_String level) = (level, True)"
  by (cases level) (simp_all add: LevelFromString_def)

lemma digitChar_props:
  assumes "d < 10"
  shows "isDigit (digitChar d) \<and> digitVal (digitChar d) = d"
proof -
  from assms have "d = 0 \<or> d = 1 \<or> d = 2 \<or> d = 3 \<or> d = 4 \<or> d = 5 \<or> d = 6 \<or> d = 7
    \<or> d = 8 \<or> d = 9" by presburger
  then show ?thesis
    by (elim disjE) (simp_all add: digitChar_def isDigit_def digitVal_def)
qed

lemma decimal_digits: "list_all isDigit (decimal n) \<and> decimal n \<noteq> []"
proof (induction n rule: decimal.induct)
  case (1 n)
  show ?case
  proof (cases "n < 10")
    case True
    then show ?thesis by (subst (1 2) decimal.simps) (simp add: digitChar_props)
  next
    case False
    with 1 show ?thesis by (subst (1 2) decimal.simps) (simp add: digitChar_props)
  qed
qed

lemma parseDigits_snoc:
  "parseDigits a (xs @ [d]) =
     (case parseDigits a xs of
        Inl err \<Rightarrow> Inl err
      | Inr m \<Rightarrow> if \<not> isDigit d then Inl ErrSyntax
                 else if 2 ^ 64 \<le> 10 * m + digitVal d then Inl ErrRange
                 else Inr (10 * m + digitVal d))"
  by (induction xs arbitrary: a) simp_all

lemma parseDigits_decimal: "n < 2 ^ 64 \<Longrightarrow> parseDigits 0 (decimal n) = Inr n"
proof (induction n rule: decimal.induct)
  case (1 n)
  show ?case
  proof (cases "n < 10")
    case True
    then show ?thesis using "1.prems"
      by (subst decimal.simps) (simp add: digitChar_props)
  next
    case False
    from "1.prems" have "n div 10 < 2 ^ 64" by simp
    with 1 False have ih: "parseDigits 0 (decimal (n div 10)) = Inr (n div 10)" by simp
    have d: "n mod 10 < 10" by simp
    from False "1.prems" ih show ?thesis
      by (subst decimal.simps) (simp add: parseDigits_snoc digitChar_props[OF d])
  qed
qed

lemma isDigit_no_sign: "isDigit c \<Longrightarrow> c \<noteq> CHR ''+'' \<and> c \<noteq> CHR ''-''"
  by (auto simp: isDigit_def)

lemma ParseInt_decimal:
  assumes "n < 2 ^ 63"
  shows "ParseInt (decimal n) = Inr (word_of_nat n)"
proof -
  from decimal_digits[of n] obtain c cs where s: "decimal n = c # cs" and c: "isDigit c"
    by (cases "decimal n") auto
  from assms have "n < 2 ^ 64" by simp
  from parseDigits_decimal[OF this] have "ParseUint (decimal n) = Inr n"
    using s by (simp add: ParseUint_def)
  with s isDigit_no_sign[OF c] assms show ?thesis
    by (simp add: ParseInt_def)
qed

lemma takeWhile_decimal: "takeWhile isDigit (decimal n) = decimal n"
proof -
  from decimal_digits[of n] have "\<forall>x\<in>set (decimal n). isDigit x" by (simp add: list_all_iff)
  then show ?thesis by (simp add: takeWhile_eq_all_conv)
qed

lemma FindStringSubmatch_here:
  "matchHere s = Some m \<Longrightarrow> FindStringSubmatch s = Some m"
  by (cases s) simp_all

lemma fieldDot_Cons:
  "g \<noteq> [] \<Longrightarrow> CHR ''.'' \<notin> set g \<Longrightarrow> fieldDot (g @ CHR ''.'' # r) = Some (g, r)"
  using fieldDot_field[of g r] by simp

lemma matchHere_canonical:
  assumes "g1 \<noteq> []" "CHR ''.'' \<notin> set g1" "g2 \<noteq> []" "CHR ''.'' \<notin> set g2"
    and "g3 \<noteq> []" "CHR ''.'' \<notin> set g3" "g5 \<noteq> []" "CHR ''.'' \<notin> set g5"
    and "level \<noteq> FATAL" "g6 \<noteq> []" and dig: "takeWhile isDigit g6 = g6"
  shows "matchHere (g1 @ ''.'' @ g2 @ ''.'' @ g3 @ ''.log.'' @ Level_String level @ ''.'' @ g5 @ ''.'' @ g6)
           = Some [g1 @ ''.'' @ g2 @ ''.'' @ g3 @ ''.log.'' @ Level_String level @ ''.'' @ g5 @ ''.'' @ g6,
                   g1, g2, g3, Level_String level, g5, g6]"
proof -
  from assms(1-9) show ?thesis
    unfolding matchHere_def
    by (simp add: fieldDot_Cons literal_def severityGroup_level)
       (simp add: Let_def dig assms(10))
qed

lemma word_of_nat_sint:
  fixes w :: int64
  assumes "0 \<le> sint w"
  shows "word_of_nat (nat (sint w)) = w" and "nat (sint w) < 2 ^ 63"
proof -
  have "word_of_nat (nat (sint w)) = (word_of_int (sint w) :: int64)"
    by (rule word_of_int_nat[OF assms, symmetric])
  also have "\<dots> = scast w" by (rule scast_eq[symmetric])
  finally show "word_of_nat (nat (sint w)) = w" by simp
  have "sint w < 2 ^ 63" using sint_lt[of w] by simp
  with assms show "nat (sint w) < 2 ^ 63" by (simp add: nat_less_iff)
qed

lemma scenario_logName:
  "fst (logName scenario level 100) =
     ''cockroach.host.user.log.'' @ Level_String level @ ''.1970-01-01T00_01_40Z.1''"
  by (simp add: logName_def scenario_def fsEnv_fields tfmt_def escapeStringForFilename_def
        FormatInt_def decimal.simps digitChar_def)

text \<open>
  C5.  The claim is that the name \<^verbatim>\<open>logName\<close> produces parses back at every known
  severity level.  The pattern \<^verbatim>\<open>logFileRE\<close> admits the names ERROR, WARNING and INFO
  only, so the name produced for FATAL is rejected as not a log file.
\<close>

theorem C5_fatal_name_rejected:
  "fst (logName scenario FATAL 100) = ''cockroach.host.user.log.FATAL.1970-01-01T00_01_40Z.1''
   \<and> parseLogFilename scenario (fst (logName scenario FATAL 100)) = Inl NotALogFile"
  by (simp add: scenario_logName) (simp add: parseLogFilename_def match_defs)

text \<open>
  C5, as the code has it.  At the levels INFO, WARNING and ERROR, with non-empty identity
  fields, a non-negative process id and a timestamp whose RFC 3339 rendering (which holds
  neither a period nor an underscore) parses back to a time with the same rendering,
  \<^verbatim>\<open>parseLogFilename\<close> accepts the name that \<^verbatim>\<open>logName\<close> produces, reproduces the
  severity, the timestamp to the second and the process id, and encoding the decoded
  severity and time again gives the same name.
\<close>

theorem C5_round_trip_three_levels:
  assumes "level \<noteq> FATAL"
    and "program env \<noteq> []" "host env \<noteq> []" "userName env \<noteq> []"
    and "0 \<le> sint (pid env)"
    and "Format env t \<noteq> []" "CHR ''.'' \<notin> set (Format env t)" "CHR ''_'' \<notin> set (Format env t)"
    and "Parse env (Format env t) = Inr t'" "Format env t' = Format env t"
  shows "parseLogFilename env (fst (logName env level t)) =
           Inr \<lparr> Program = unescapeStringForFilename (escapeStringForFilename (program env)),
                 Host = unescapeStringForFilename (escapeStringForFilename (host env)),
                 UserName = unescapeStringForFilename (escapeStringForFilename (userName env)),
                 Level = level, Time = t', PID = pid env \<rparr>
       \<and> fst (logName env level t') = fst (logName env level t)"
proof -
  let ?g1 = "escapeStringForFilename (program env)"
  let ?g2 = "escapeStringForFilename (host env)"
  let ?g3 = "escapeStringForFilename (userName env)"
  let ?g5 = "Replace (Format env t) '':'' ''_''"
  let ?g6 = "decimal (nat (sint (pid env)))"
  let ?name = "?g1 @ ''.'' @ ?g2 @ ''.'' @ ?g3 @ ''.log.'' @ Level_String level @ ''.'' @ ?g5 @ ''.'' @ ?g6"
  have name: "fst (logName env level t) = ?name"
    using assms(5) by (simp add: logName_def FormatInt_def)
  have "matchHere ?name = Some [?name, ?g1, ?g2, ?g3, Level_String level, ?g5, ?g6]"
    by (rule matchHere_canonical)
       (use assms in \<open>simp_all add: escape_no_dot escape_nonempty Replace_colon_no_dot
          Replace_colon_nonempty takeWhile_decimal decimal_digits\<close>)
  then have find: "FindStringSubmatch ?name = Some [?name, ?g1, ?g2, ?g3, Level_String level, ?g5, ?g6]"
    by (rule FindStringSubmatch_here)
  have time: "Parse env (Replace ?g5 ''_'' '':'') = Inr t'"
    using assms(8,9) by (simp add: Replace_colon_back)
  have pid: "ParseInt ?g6 = Inr (pid env)"
    using ParseInt_decimal[OF word_of_nat_sint(2)[OF assms(5)]] word_of_nat_sint(1)[OF assms(5)]
    by simp
  have "parseLogFilename env ?name =
           Inr \<lparr> Program = unescapeStringForFilename ?g1, Host = unescapeStringForFilename ?g2,
                 UserName = unescapeStringForFilename ?g3, Level = level, Time = t', PID = pid env \<rparr>"
    unfolding parseLogFilename_def find
    by (simp add: LevelFromString_String time pid del: append_assoc)
  moreover have "fst (logName env level t') = fst (logName env level t)"
    using assms(10) by (simp add: logName_def)
  ultimately show ?thesis by (simp only: name) 
qed

theorem C5_round_trip_three_levels_witness:
  "INFO \<noteq> FATAL \<and> 0 \<le> sint (pid scenario)
   \<and> Parse scenario (Format scenario 100) = Inr 100
   \<and> parseLogFilename scenario (fst (logName scenario INFO 100)) =
        Inr \<lparr> Program = unescapeStringForFilename (escapeStringForFilename (program scenario)),
              Host = unescapeStringForFilename (escapeStringForFilename (host scenario)),
              UserName = unescapeStringForFilename (escapeStringForFilename (userName scenario)),
              Level = INFO, Time = 100, PID = pid scenario \<rparr>"
proof -
  have h: "INFO \<noteq> FATAL" "program scenario \<noteq> []" "host scenario \<noteq> []" "userName scenario \<noteq> []"
    "0 \<le> sint (pid scenario)" "Format scenario 100 \<noteq> []"
    "CHR ''.'' \<notin> set (Format scenario 100)" "CHR ''_'' \<notin> set (Format scenario 100)"
    "Parse scenario (Format scenario 100) = Inr 100" "Format scenario 100 = Format scenario 100"
    by (simp_all add: scenario_def fsEnv_fields tfmt_def tparse_def)
  from C5_round_trip_three_levels[OF h] h(1,5,9) show ?thesis by blast
qed

lemma splitDots_nonempty: "splitDots s \<noteq> []"
  by (induction s) (auto split: list.splits)

lemma splitDots_field:
  "CHR ''.'' \<notin> set g \<Longrightarrow> splitDots (g @ CHR ''.'' # r) = g # splitDots r"
  by (induction g) auto

lemma splitDots_single: "length (splitDots s) = 1 \<Longrightarrow> splitDots s = [s]"
proof (induction s)
  case Nil
  then show ?case by simp
next
  case (Cons c cs)
  show ?case
  proof (cases "c = CHR ''.''")
    case True
    with Cons.prems splitDots_nonempty[of cs] show ?thesis by simp
  next
    case False
    obtain f fs where f: "splitDots cs = f # fs"
      using splitDots_nonempty[of cs] by (cases "splitDots cs") auto
    with Cons False show ?thesis by simp
  qed
qed

lemma fieldDot_split:
  assumes "fieldDot s = Some (g, r)"
  shows "splitDots s = g # splitDots r"
proof -
  from assms have g: "g = takeWhile notDot s" and d: "dropWhile notDot s = CHR ''.'' # r"
  proof -
    from assms obtain d where dr: "dropWhile notDot s = d # r" and g': "g = takeWhile notDot s"
      by (auto simp: fieldDot_def Let_def split: if_splits list.splits)
    from dr have "dropWhile notDot s \<noteq> []" by simp
    then have "\<not> notDot (hd (dropWhile notDot s))"
      by (rule hd_dropWhile)
    with dr have "d = CHR ''.''" by (simp add: notDot_def)
    with dr g' show "g = takeWhile notDot s" and "dropWhile notDot s = CHR ''.'' # r" by simp_all
  qed
  have "s = takeWhile notDot s @ dropWhile notDot s" by simp
  with g d have s: "s = g @ CHR ''.'' # r" by simp
  have "CHR ''.'' \<notin> set g"
    unfolding g by (auto dest: set_takeWhileD simp: notDot_def)
  then show ?thesis by (subst s) (rule splitDots_field)
qed

lemma literal_split: "literal l s = Some r \<Longrightarrow> s = l @ r"
  by (auto simp: literal_def prefix_def split: if_splits)

lemma severityGroup_split:
  "severityGroup s = Some (g, r) \<Longrightarrow> s = g @ r \<and> g \<in> {''ERROR'', ''WARNING'', ''INFO''}"
  by (auto simp: severityGroup_def prefix_def split: if_splits)

lemma matchHere_fields:
  assumes "matchHere s = Some m"
  shows "\<exists>g1 g2 g3 g4 g5 r7. splitDots s = [g1, g2, g3, ''log'', g4, g5] @ splitDots r7
           \<and> g4 \<in> {''ERROR'', ''WARNING'', ''INFO''} \<and> r7 \<noteq> [] \<and> isDigit (hd r7)"
proof -
  from assms obtain g1 r1 g2 r2 g3 r3 r4 g4 r5 r6 g5 r7 where
    f1: "fieldDot s = Some (g1, r1)" and f2: "fieldDot r1 = Some (g2, r2)"
    and f3: "fieldDot r2 = Some (g3, r3)" and l4: "literal ''log.'' r3 = Some r4"
    and s5: "severityGroup r4 = Some (g4, r5)" and l6: "literal ''.'' r5 = Some r6"
    and f7: "fieldDot r6 = Some (g5, r7)" and d: "takeWhile isDigit r7 \<noteq> []"
    by (auto simp: matchHere_def Let_def split: option.splits prod.splits if_splits)
  from literal_split[OF l4] have "splitDots r3 = ''log'' # splitDots r4"
    using splitDots_field[of "''log''" r4] by simp
  moreover from severityGroup_split[OF s5] literal_split[OF l6]
  have g4: "g4 \<in> {''ERROR'', ''WARNING'', ''INFO''}" and r4: "r4 = g4 @ CHR ''.'' # r6" by auto
  from g4 have "CHR ''.'' \<notin> set g4" by auto
  with r4 have "splitDots r4 = g4 # splitDots r6" by (simp add: splitDots_field)
  ultimately have "splitDots s = [g1, g2, g3, ''log'', g4, g5] @ splitDots r7"
    using fieldDot_split[OF f1] fieldDot_split[OF f2] fieldDot_split[OF f3] fieldDot_split[OF f7]
    by simp
  moreover from d have "r7 \<noteq> []" "isDigit (hd r7)"
    by (cases r7; simp split: if_splits)+
  ultimately show ?thesis using g4 by blast
qed

lemma FindStringSubmatch_fields:
  "FindStringSubmatch s = Some m \<Longrightarrow>
   \<exists>A g4 g5 r7. splitDots s = A @ [g4, g5] @ splitDots r7 \<and> 4 \<le> length A
       \<and> g4 \<in> {''ERROR'', ''WARNING'', ''INFO''} \<and> r7 \<noteq> [] \<and> isDigit (hd r7)"
proof (induction s)
  case Nil
  then show ?case by (simp add: matchHere_def fieldDot_def)
next
  case (Cons c cs)
  show ?case
  proof (cases "matchHere (c # cs)")
    case (Some m')
    from matchHere_fields[OF Some] obtain g1 g2 g3 g4 g5 r7 where
      "splitDots (c # cs) = [g1, g2, g3, ''log'', g4, g5] @ splitDots r7"
      "g4 \<in> {''ERROR'', ''WARNING'', ''INFO''}" "r7 \<noteq> []" "isDigit (hd r7)" by blast
    then show ?thesis
      by (intro exI[of _ "[g1, g2, g3, ''log'']"] exI[of _ g4] exI[of _ g5] exI[of _ r7]) simp
  next
    case None
    with Cons.prems have "FindStringSubmatch cs = Some m" by simp
    from Cons.IH[OF this] obtain A g4 g5 r7 where
      A: "splitDots cs = A @ [g4, g5] @ splitDots r7" "4 \<le> length A"
      and r: "g4 \<in> {''ERROR'', ''WARNING'', ''INFO''}" "r7 \<noteq> []" "isDigit (hd r7)" by blast
    from A(2) obtain a A' where A': "A = a # A'" by (cases A) auto
    let ?B = "if c = CHR ''.'' then [] # A else (c # a) # A'"
    have "splitDots (c # cs) = ?B @ [g4, g5] @ splitDots r7"
      using A(1) A' by simp
    moreover have "4 \<le> length ?B" using A(2) A' by simp
    ultimately show ?thesis using r by blast
  qed
qed

text \<open>
  C6.  The claim is that \<^verbatim>\<open>parseLogFilename\<close> rejects every string with more than
  the seven fields of the pattern and every string whose process id field is not a
  number.  The pattern has no anchors: a match may start after the beginning of the name
  and end before its end.  A name with an eighth field in front is accepted, and so is a
  name whose last field is a digit followed by a letter.
\<close>

theorem C6_unanchored_names_accepted:
  "length (splitDots ''x.cockroach.host.user.log.INFO.1970-01-01T00_01_40Z.1'') = 8
   \<and> parseLogFilename scenario ''x.cockroach.host.user.log.INFO.1970-01-01T00_01_40Z.1'' =
       Inr \<lparr> Program = ''cockroach'', Host = ''host'', UserName = ''user'',
             Level = INFO, Time = 100, PID = 1 \<rparr>
   \<and> splitDots ''cockroach.host.user.log.INFO.1970-01-01T00_01_40Z.1x'' ! 6 = ''1x''
   \<and> parseLogFilename scenario ''cockroach.host.user.log.INFO.1970-01-01T00_01_40Z.1x'' =
       Inr \<lparr> Program = ''cockroach'', Host = ''host'', UserName = ''user'',
             Level = INFO, Time = 100, PID = 1 \<rparr>"
  by (simp add: scenario_def fsEnv_fields parse_defs)

text \<open>
  C6, as the code has it.  \<^verbatim>\<open>parseLogFilename\<close> returns the error "not a log file",
  and no file details, for every string with fewer than seven fields between periods,
  and for every string of exactly seven fields whose fifth field is not one of ERROR,
  WARNING and INFO or whose seventh field does not begin with a decimal digit.  The model
  of the function has no panic: every index into the matches is below their number.
\<close>

theorem C6_malformed_names_rejected:
  assumes "length (splitDots s) < 7
         \<or> length (splitDots s) = 7
            \<and> (splitDots s ! 4 \<notin> {''ERROR'', ''WARNING'', ''INFO''}
               \<or> splitDots s ! 6 = [] \<or> \<not> isDigit (hd (splitDots s ! 6)))"
  shows "parseLogFilename env s = Inl NotALogFile"
proof (cases "FindStringSubmatch s")
  case None
  then show ?thesis by (simp add: parseLogFilename_def)
next
  case (Some m)
  from FindStringSubmatch_fields[OF Some] obtain A g4 g5 r7 where
    sp: "splitDots s = A @ [g4, g5] @ splitDots r7" and A: "4 \<le> length A"
    and g4: "g4 \<in> {''ERROR'', ''WARNING'', ''INFO''}" and r7: "r7 \<noteq> []" "isDigit (hd r7)"
    by blast
  have one: "1 \<le> length (splitDots r7)"
    using splitDots_nonempty[of r7] by (cases "splitDots r7") auto
  from sp have len: "length (splitDots s) = length A + 2 + length (splitDots r7)" by simp
  with A one assms have seven: "length (splitDots s) = 7" by linarith
  with len A one have lA: "length A = 4" and l7: "length (splitDots r7) = 1" by linarith+
  from splitDots_single[OF l7] sp have "splitDots s = A @ [g4, g5, r7]" by simp
  with lA have "splitDots s ! 4 = g4" "splitDots s ! 6 = r7"
    by (simp_all add: nth_append)
  with assms seven g4 r7 show ?thesis by auto
qed

theorem C6_malformed_names_rejected_witness:
  "length (splitDots ''cockroach.host.user.log.DEBUG.1970-01-01T00_01_40Z.1'') = 7
   \<and> splitDots ''cockroach.host.user.log.DEBUG.1970-01-01T00_01_40Z.1'' ! 4 = ''DEBUG''
   \<and> parseLogFilename scenario ''cockroach.host.user.log.DEBUG.1970-01-01T00_01_40Z.1'' =
       Inl NotALogFile"
proof -
  have f: "length (splitDots ''cockroach.host.user.log.DEBUG.1970-01-01T00_01_40Z.1'') = 7"
    "splitDots ''cockroach.host.user.log.DEBUG.1970-01-01T00_01_40Z.1'' ! 4 = ''DEBUG''"
    by simp_all
  have h: "length (splitDots ''cockroach.host.user.log.DEBUG.1970-01-01T00_01_40Z.1'') < 7
         \<or> length (splitDots ''cockroach.host.user.log.DEBUG.1970-01-01T00_01_40Z.1'') = 7
            \<and> (splitDots ''cockroach.host.user.log.DEBUG.1970-01-01T00_01_40Z.1'' ! 4
                  \<notin> {''ERROR'', ''WARNING'', ''INFO''}
               \<or> splitDots ''cockroach.host.user.log.DEBUG.1970-01-01T00_01_40Z.1'' ! 6 = []
               \<or> \<not> isDigit (hd (splitDots ''cockroach.host.user.log.DEBUG.1970-01-01T00_01_40Z.1'' ! 6)))"
    unfolding f by simp
  from C6_malformed_names_rejected[OF h, of scenario] f show ?thesis by blast
qed

end
